theory Spec2Isabelle
  imports Main "HOL-Library.Word"
begin

unbundle bit_operations_syntax

section \<open>Values of the JavaScript program\<close>

text \<open>
  The program is one Node.js module: the packet codec
  (\<^verbatim>\<open>rcon_create_packet_structure\<close>, \<^verbatim>\<open>rcon_get_packet_structure\<close>) and the session object
  returned by \<^verbatim>\<open>rcon_connect\<close> (\<^verbatim>\<open>command\<close>, \<^verbatim>\<open>auth\<close>, \<^verbatim>\<open>send\<close>).

  A \<^verbatim>\<open>Buffer\<close> is a list of bytes. A JavaScript string is a list of UTF-16 code units.
  A JavaScript number that holds an integer is an \<open>int\<close>. An exception is a value of
  \<open>js_error\<close>; a function that can throw returns \<open>js_error + 'a\<close>, with \<open>Inl\<close> the
  exception.
\<close>

type_synonym byte = "8 word"
type_synonym buffer = "byte list"
type_synonym code_unit = "16 word"
type_synonym jsstring = "code_unit list"

datatype js_error =
    RangeError          \<comment> \<open>\<^verbatim>\<open>ERR_OUT_OF_RANGE\<close> and \<^verbatim>\<open>ERR_BUFFER_OUT_OF_BOUNDS\<close> of \<^verbatim>\<open>node:buffer\<close>\<close>
  | Error string        \<comment> \<open>\<^verbatim>\<open>new Error(message)\<close>\<close>
  | SocketError string  \<comment> \<open>an error object the socket passes to its \<^verbatim>\<open>'error'\<close> listeners\<close>

text \<open>A string literal of the source, as code units.\<close>

definition js :: "string \<Rightarrow> jsstring" where
  "js s = map (\<lambda>c. of_char c) s"

text \<open>The strings the spec calls ASCII: every code unit is below \<open>0x80\<close>.\<close>

definition is_ascii :: "jsstring \<Rightarrow> bool" where
  "is_ascii s = list_all (\<lambda>c. c < 0x80) s"

definition is_int32 :: "int \<Rightarrow> bool" where
  "is_int32 v = (- 2147483648 \<le> v \<and> v \<le> 2147483647)"

section \<open>The operations of \<^verbatim>\<open>node:buffer\<close> the codec calls\<close>

text \<open>
  \<^verbatim>\<open>Buffer.byteLength(string)\<close> with the default encoding: the length of the string's UTF-8
  encoding. A code unit below \<open>0x80\<close> takes one byte, one below \<open>0x800\<close> two, a surrogate
  pair four, and any other code unit (a lone surrogate too) three.
\<close>

definition is_lead :: "code_unit \<Rightarrow> bool" where
  "is_lead c = (0xD800 \<le> c \<and> c \<le> 0xDBFF)"

definition is_trail :: "code_unit \<Rightarrow> bool" where
  "is_trail c = (0xDC00 \<le> c \<and> c \<le> 0xDFFF)"

definition utf8_size :: "code_unit \<Rightarrow> nat" where
  "utf8_size c = (if c < 0x80 then 1 else if c < 0x800 then 2 else 3)"

fun byteLength :: "jsstring \<Rightarrow> nat" where
  "byteLength (c # d # cs) =
     (if is_lead c \<and> is_trail d then 4 + byteLength cs
      else utf8_size c + byteLength (d # cs))"
| "byteLength [c] = utf8_size c"
| "byteLength [] = 0"

text \<open>\<^verbatim>\<open>Buffer.alloc(size)\<close>: \<open>size\<close> zero bytes.\<close>

definition alloc :: "nat \<Rightarrow> buffer" where
  "alloc n = replicate n 0"

text \<open>
  A write changes the bytes of the buffer from \<open>offset\<close> on and leaves the others; the
  model returns the buffer after the write.
\<close>

definition overwrite :: "byte list \<Rightarrow> nat \<Rightarrow> buffer \<Rightarrow> buffer" where
  "overwrite bs offset buf = take offset buf @ bs @ drop (offset + length bs) buf"

text \<open>
  \<^verbatim>\<open>buf.writeInt32LE(value, offset)\<close>: a \<^verbatim>\<open>RangeError\<close> when the value is not an int32, then
  a \<^verbatim>\<open>RangeError\<close> when the four bytes do not fit; otherwise the four bytes of the value's
  two's complement, lowest first (\<^verbatim>\<open>buf[offset++] = value; value = value >>> 8; ...\<close>).
\<close>

definition int32_bytes :: "int \<Rightarrow> byte list" where
  "int32_bytes v =
     (let w = (word_of_int v :: 32 word)
      in [ucast w, ucast (drop_bit 8 w), ucast (drop_bit 16 w), ucast (drop_bit 24 w)])"

definition writeInt32LE :: "int \<Rightarrow> nat \<Rightarrow> buffer \<Rightarrow> js_error + buffer" where
  "writeInt32LE v offset buf =
     (if v < - 2147483648 \<or> 2147483647 < v then Inl RangeError
      else if length buf < offset + 4 then Inl RangeError
      else Inr (overwrite (int32_bytes v) offset buf))"

definition int16_bytes :: "int \<Rightarrow> byte list" where
  "int16_bytes v = (let w = (word_of_int v :: 16 word) in [ucast w, ucast (drop_bit 8 w)])"

definition writeInt16LE :: "int \<Rightarrow> nat \<Rightarrow> buffer \<Rightarrow> js_error + buffer" where
  "writeInt16LE v offset buf =
     (if v < - 32768 \<or> 32767 < v then Inl RangeError
      else if length buf < offset + 2 then Inl RangeError
      else Inr (overwrite (int16_bytes v) offset buf))"

text \<open>
  \<^verbatim>\<open>buf.write(string, offset, length, 'ascii')\<close>: \<open>offset\<close> and \<open>length\<close> are validated
  against the buffer's length, \<open>length\<close> is cut down to the bytes that remain after
  \<open>offset\<close>, and of at most that many code units the low byte is written.
\<close>

definition write_ascii :: "jsstring \<Rightarrow> nat \<Rightarrow> nat \<Rightarrow> buffer \<Rightarrow> js_error + buffer" where
  "write_ascii string offset len buf =
     (if length buf < offset then Inl RangeError
      else if length buf < len then Inl RangeError
      else
        let remaining = length buf - offset;
            len' = (if remaining < len then remaining else len)
        in Inr (overwrite (map ucast (take len' string)) offset buf))"

text \<open>
  \<^verbatim>\<open>buf.readInt32LE(offset)\<close>: a \<^verbatim>\<open>RangeError\<close> unless the four bytes lie in the buffer;
  otherwise \<^verbatim>\<open>first + buf[offset+1] * 2 ** 8 + buf[offset+2] * 2 ** 16 + (last << 24)\<close>, where
  \<^verbatim>\<open><<\<close> gives a signed 32-bit value.
\<close>

definition readInt32LE :: "nat \<Rightarrow> buffer \<Rightarrow> js_error + int" where
  "readInt32LE offset buf =
     (if length buf < offset + 4 then Inl RangeError
      else Inr (uint (buf ! offset)
              + uint (buf ! (offset + 1)) * 2 ^ 8
              + uint (buf ! (offset + 2)) * 2 ^ 16
              + sint (push_bit 24 (ucast (buf ! (offset + 3)) :: 32 word))))"

text \<open>
  \<^verbatim>\<open>buf.toString('ascii', start, end)\<close>: never throws. \<open>start\<close> at or past the length gives
  the empty string, \<open>end\<close> is cut down to the length, \<open>end \<le> start\<close> gives the empty string;
  otherwise every byte from \<open>start\<close> up to \<open>end\<close> becomes one code unit, its highest bit
  cleared. \<open>end\<close> is an \<open>int\<close>: the codec passes \<^verbatim>\<open>buffer.length - 2\<close>, which is negative for
  a buffer of fewer than two bytes.
\<close>

definition ascii_char :: "byte \<Rightarrow> code_unit" where
  "ascii_char b = ucast (b AND 0x7F)"

definition toString_ascii :: "int \<Rightarrow> int \<Rightarrow> buffer \<Rightarrow> jsstring" where
  "toString_ascii start end buf =
     (let len = int (length buf) in
      if len \<le> start then []
      else
        let start' = (if start \<le> 0 then 0 else start);
            end' = (if len < end then len else end)
        in if end' \<le> start' then []
           else map ascii_char (take (nat (end' - start')) (drop (nat start') buf)))"

section \<open>The packet codec\<close>

record PacketStructure =
  p_size :: int
  p_id :: int
  p_type :: int
  p_body :: jsstring

definition SERVERDATA_AUTH :: int where "SERVERDATA_AUTH = 3"
definition SERVERDATA_AUTH_RESPONSE :: int where "SERVERDATA_AUTH_RESPONSE = 2"
definition SERVERDATA_EXECCOMMAND :: int where "SERVERDATA_EXECCOMMAND = 2"
definition SERVERDATA_RESPONSE_VALUE :: int where "SERVERDATA_RESPONSE_VALUE = 0"

definition rcon_create_packet_structure :: "int \<Rightarrow> int \<Rightarrow> jsstring \<Rightarrow> js_error + buffer" where
  "rcon_create_packet_structure ident type body =
     (let size = byteLength body + 14;
          buffer = alloc size
      in case writeInt32LE (int size - 4) 0 buffer of
           Inl e \<Rightarrow> Inl e
         | Inr buffer \<Rightarrow>
        (case writeInt32LE ident 4 buffer of
           Inl e \<Rightarrow> Inl e
         | Inr buffer \<Rightarrow>
        (case writeInt32LE type 8 buffer of
           Inl e \<Rightarrow> Inl e
         | Inr buffer \<Rightarrow>
        (case write_ascii body 12 (size - 2) buffer of
           Inl e \<Rightarrow> Inl e
         | Inr buffer \<Rightarrow> writeInt16LE 0 (size - 2) buffer))))"

definition rcon_get_packet_structure :: "buffer \<Rightarrow> js_error + PacketStructure" where
  "rcon_get_packet_structure buffer =
     (case readInt32LE 0 buffer of
        Inl e \<Rightarrow> Inl e
      | Inr size' \<Rightarrow>
     (case readInt32LE 4 buffer of
        Inl e \<Rightarrow> Inl e
      | Inr ident \<Rightarrow>
     (case readInt32LE 8 buffer of
        Inl e \<Rightarrow> Inl e
      | Inr type \<Rightarrow>
          Inr \<lparr>p_size = size', p_id = ident, p_type = type,
               p_body = toString_ascii 12 (int (length buffer) - 2) buffer\<rparr>)))"

text \<open>
  The spec's reading of four bytes as a little-endian signed int32, independent of the
  formula \<open>readInt32LE\<close> computes: the unsigned value of the bytes, lowest first, taken
  as 32-bit two's complement.
\<close>

definition le_value :: "byte list \<Rightarrow> int" where
  "le_value bs = foldr (\<lambda>b acc. uint b + 256 * acc) bs 0"

definition le_sint32 :: "byte list \<Rightarrow> int" where
  "le_sint32 bs = signed_take_bit 31 (le_value bs)"

section \<open>The session object of \<^verbatim>\<open>rcon_connect\<close>\<close>

text \<open>
  The state of one connection: the buffers passed to \<^verbatim>\<open>connection.write\<close> so far, the
  listeners the socket holds for \<^verbatim>\<open>'data'\<close> and for \<^verbatim>\<open>'error'\<close> in the order they were
  attached, every promise created so far with its state, and the exceptions that have
  escaped a listener. A promise is named by its index in \<open>promises\<close>. Every listener of
  the source is a closure over the \<^verbatim>\<open>resolve\<close> and \<^verbatim>\<open>reject\<close> of one promise, so a listener
  is named by that promise.

  The source installs no \<^verbatim>\<open>'uncaughtException'\<close> handler: an exception that escapes a
  listener ends the process. \<open>step\<close> below therefore changes nothing once \<open>uncaught\<close> is
  not empty.
\<close>

datatype js_value = JSSocket | JSPacket PacketStructure | JSString jsstring

datatype promise_state = Pending | Fulfilled js_value | Rejected js_error

record session =
  written :: "buffer list"
  data_listeners :: "nat list"
  error_listeners :: "nat list"
  promises :: "promise_state list"
  uncaught :: "js_error list"

text \<open>
  \<^verbatim>\<open>resolve(value)\<close> and \<^verbatim>\<open>reject(error)\<close> of promise \<open>p\<close>: they settle a pending promise
  and do nothing to a settled one.
\<close>

definition resolve :: "nat \<Rightarrow> js_value \<Rightarrow> session \<Rightarrow> session" where
  "resolve p v s =
     (if p < length (promises s) \<and> promises s ! p = Pending
      then s\<lparr>promises := (promises s)[p := Fulfilled v]\<rparr> else s)"

definition reject :: "nat \<Rightarrow> js_error \<Rightarrow> session \<Rightarrow> session" where
  "reject p e s =
     (if p < length (promises s) \<and> promises s ! p = Pending
      then s\<lparr>promises := (promises s)[p := Rejected e]\<rparr> else s)"

text \<open>
  The session as \<^verbatim>\<open>rcon_connect\<close> returns it: the promise of \<^verbatim>\<open>rcon_create_connection\<close>
  (promise 0) is fulfilled with the socket, and the socket still holds the
  \<^verbatim>\<open>.on('error', (error) => reject(error))\<close> listener of that promise.
\<close>

definition connected :: session where
  "connected = \<lparr>written = [], data_listeners = [], error_listeners = [0],
                 promises = [Fulfilled JSSocket], uncaught = []\<rparr>"

text \<open>
  The \<^verbatim>\<open>'data'\<close> listener \<^verbatim>\<open>send\<close> attaches, for the promise \<open>p\<close> of that call. It returns
  the state it leaves and the exception it throws, if any: decoding can throw, the
  password check throws, otherwise the promise is resolved with the packet.
\<close>

definition data_listener :: "nat \<Rightarrow> buffer \<Rightarrow> session \<Rightarrow> session \<times> js_error option" where
  "data_listener p data s =
     (case rcon_get_packet_structure data of
        Inl e \<Rightarrow> (s, Some e)
      | Inr packet \<Rightarrow>
          if p_type packet = 2 \<and> p_id packet = - 1
          then (s, Some (Error ''Wrong RCON password!''))
          else (resolve p (JSPacket packet) s, None))"

text \<open>
  \<^verbatim>\<open>emit('data', data)\<close>: the listeners are called in the order they were attached; an
  exception thrown by one leaves \<^verbatim>\<open>emit\<close>, the listeners after it are not called, and
  nothing catches it.
\<close>

fun call_data_listeners :: "nat list \<Rightarrow> buffer \<Rightarrow> session \<Rightarrow> session \<times> js_error option" where
  "call_data_listeners [] data s = (s, None)"
| "call_data_listeners (p # ps) data s =
     (case data_listener p data s of
        (s', Some e) \<Rightarrow> (s', Some e)
      | (s', None) \<Rightarrow> call_data_listeners ps data s')"

definition emit_data :: "buffer \<Rightarrow> session \<Rightarrow> session" where
  "emit_data data s =
     (case call_data_listeners (data_listeners s) data s of
        (s', None) \<Rightarrow> s'
      | (s', Some e) \<Rightarrow> s'\<lparr>uncaught := uncaught s' @ [e]\<rparr>)"

text \<open>
  \<^verbatim>\<open>emit('error', error)\<close>: every listener is \<^verbatim>\<open>(error) => reject(error)\<close>; with no listener
  attached the emitter throws the error itself.
\<close>

definition emit_error :: "js_error \<Rightarrow> session \<Rightarrow> session" where
  "emit_error e s =
     (if error_listeners s = [] then s\<lparr>uncaught := uncaught s @ [e]\<rparr>
      else foldl (\<lambda>s' p. reject p e s') s (error_listeners s))"

text \<open>
  \<^verbatim>\<open>send(packet)\<close>, statement by statement: \<^verbatim>\<open>connection.write(packet)\<close>, \<^verbatim>\<open>new Promise\<close>,
  \<^verbatim>\<open>removeAllListeners('data')\<close>, \<^verbatim>\<open>removeAllListeners('error')\<close>, \<^verbatim>\<open>on('data', ...)\<close>,
  \<^verbatim>\<open>on('error', ...)\<close>. The result is the new promise and the state after the call.
  \<^verbatim>\<open>send\<close> is an \<^verbatim>\<open>async\<close> function that returns this promise, so the promise the caller
  gets settles exactly as this one does; the model does not tell the two apart.
\<close>

definition send :: "buffer \<Rightarrow> session \<Rightarrow> nat \<times> session" where
  "send packet s =
     (let s1 = s\<lparr>written := written s @ [packet]\<rparr>;
          p = length (promises s1);
          s2 = s1\<lparr>promises := promises s1 @ [Pending]\<rparr>;
          s3 = s2\<lparr>data_listeners := []\<rparr>;
          s4 = s3\<lparr>error_listeners := []\<rparr>;
          s5 = s4\<lparr>data_listeners := data_listeners s4 @ [p]\<rparr>;
          s6 = s5\<lparr>error_listeners := error_listeners s5 @ [p]\<rparr>
      in (p, s6))"

text \<open>
  An \<^verbatim>\<open>async\<close> function whose body throws before its first \<^verbatim>\<open>await\<close> returns a promise
  rejected with the exception.
\<close>

definition rejected_promise :: "js_error \<Rightarrow> session \<Rightarrow> nat \<times> session" where
  "rejected_promise e s = (length (promises s), s\<lparr>promises := promises s @ [Rejected e]\<rparr>)"

text \<open>
  \<^verbatim>\<open>auth(password)\<close>: \<^verbatim>\<open>var response = await this.send(rcon_create_packet_structure(10,
  PACKET_TYPES.SERVERDATA_AUTH, password)); return response;\<close>. The function returns what
  it awaited, unchanged, so its promise settles exactly as the promise of \<^verbatim>\<open>send\<close> does.
\<close>

definition auth :: "jsstring \<Rightarrow> session \<Rightarrow> nat \<times> session" where
  "auth password s =
     (case rcon_create_packet_structure 10 SERVERDATA_AUTH password of
        Inl e \<Rightarrow> rejected_promise e s
      | Inr packet \<Rightarrow> send packet s)"

text \<open>
  \<^verbatim>\<open>crypto.randomInt(max)\<close> is Node's; its contract is an integer \<open>n\<close> with \<open>0 \<le> n < max\<close>.
  The model takes the entropy it draws as an argument \<open>r\<close>.
\<close>

definition randomInt :: "nat \<Rightarrow> nat \<Rightarrow> int" where
  "randomInt bound r = int (r mod bound)"

text \<open>
  \<^verbatim>\<open>command(name)\<close>: \<^verbatim>\<open>var response = await this.send(rcon_create_packet_structure(
  crypto.randomInt(10000), PACKET_TYPES.SERVERDATA_EXECCOMMAND, name)); return response;\<close>.
\<close>

definition command :: "jsstring \<Rightarrow> nat \<Rightarrow> session \<Rightarrow> nat \<times> session" where
  "command name r s =
     (case rcon_create_packet_structure (randomInt 10000 r) SERVERDATA_EXECCOMMAND name of
        Inl e \<Rightarrow> rejected_promise e s
      | Inr packet \<Rightarrow> send packet s)"

text \<open>
  What can happen to a connected session: the program calls \<^verbatim>\<open>send\<close>, \<^verbatim>\<open>auth\<close> or
  \<^verbatim>\<open>command\<close>, or the socket emits \<^verbatim>\<open>'data'\<close> or \<^verbatim>\<open>'error'\<close>. Everything runs on one thread,
  so each of these runs to its end before the next starts.
\<close>

datatype event =
    CallSend buffer
  | CallAuth jsstring
  | CallCommand jsstring nat
  | Data buffer
  | SocketFailure js_error

definition step :: "event \<Rightarrow> session \<Rightarrow> session" where
  "step ev s =
     (if uncaught s \<noteq> [] then s
      else case ev of
             CallSend packet \<Rightarrow> snd (send packet s)
           | CallAuth password \<Rightarrow> snd (auth password s)
           | CallCommand name r \<Rightarrow> snd (command name r s)
           | Data data \<Rightarrow> emit_data data s
           | SocketFailure e \<Rightarrow> emit_error e s)"

definition run :: "event list \<Rightarrow> session \<Rightarrow> session" where
  "run evs s = fold step evs s"

text \<open>The packet \<^verbatim>\<open>send\<close> takes for the signal of a wrong password.\<close>

definition wrong_password :: "PacketStructure \<Rightarrow> bool" where
  "wrong_password packet = (p_type packet = 2 \<and> p_id packet = - 1)"

text \<open>
  A promise that is settled, or that no listener names, keeps its state through every
  step; and a promise that no listener names is named by none afterwards.
\<close>

definition detached :: "nat \<Rightarrow> session \<Rightarrow> bool" where
  "detached p s = (p < length (promises s)
      \<and> (promises s ! p \<noteq> Pending
          \<or> (p \<notin> set (data_listeners s) \<and> p \<notin> set (error_listeners s))))"

text \<open>
  \<^verbatim>\<open>buffer.constants.MAX_STRING_LENGTH\<close> of the runtime the module needs (it uses top-level
  \<^verbatim>\<open>await\<close> and an import assertion): no string holds more code units.
\<close>

definition MAX_STRING_LENGTH :: nat where
  "MAX_STRING_LENGTH = 536870888"

section \<open>Facts about the buffer operations\<close>

lemmas eval_defs =
  auth_def command_def send_def rejected_promise_def emit_data_def data_listener_def
  resolve_def reject_def connected_def Let_def js_def randomInt_def
  rcon_create_packet_structure_def rcon_get_packet_structure_def
  alloc_def writeInt32LE_def writeInt16LE_def write_ascii_def overwrite_def
  int32_bytes_def int16_bytes_def readInt32LE_def toString_ascii_def ascii_char_def
  utf8_size_def is_lead_def is_trail_def
  SERVERDATA_AUTH_def SERVERDATA_EXECCOMMAND_def wrong_password_def

lemma alloc_length: "length (alloc n) = n"
  by (simp add: alloc_def)

lemma not_lead_ascii: "c < 0x80 \<Longrightarrow> \<not> is_lead c"
  by (simp add: is_lead_def word_le_def word_less_def)

lemma byteLength_ascii: "is_ascii s \<Longrightarrow> byteLength s = length s"
  by (induction s rule: byteLength.induct)
     (simp_all add: is_ascii_def utf8_size_def not_lead_ascii)

lemma utf8_size_pos: "1 \<le> utf8_size c"
  by (simp add: utf8_size_def)

lemma length_le_byteLength: "length s \<le> byteLength s"
proof (induction s rule: byteLength.induct)
  case (1 c d cs)
  have "1 \<le> utf8_size c" by (rule utf8_size_pos)
  with 1 show ?case by (cases "is_lead c \<and> is_trail d") auto
next
  case (2 c)
  show ?case using utf8_size_pos [of c] by simp
next
  case 3
  show ?case by simp
qed

lemma utf8_size_le: "utf8_size c \<le> 3"
  by (simp add: utf8_size_def)

lemma byteLength_le: "byteLength s \<le> 3 * length s"
proof (induction s rule: byteLength.induct)
  case (1 c d cs)
  have "utf8_size c \<le> 3" by (rule utf8_size_le)
  with 1 show ?case by (cases "is_lead c \<and> is_trail d") auto
next
  case (2 c)
  show ?case using utf8_size_le [of c] by simp
next
  case 3
  show ?case by simp
qed

text \<open>Every string of the runtime has a size field that \<open>writeInt32LE\<close> accepts.\<close>

lemma runtime_string_fits:
  assumes "length s \<le> MAX_STRING_LENGTH"
  shows "int (byteLength s) + 10 \<le> 2147483647" and "int (length s) + 10 \<le> 2147483647"
proof -
  have "byteLength s \<le> 3 * length s" by (rule byteLength_le)
  with assms show "int (byteLength s) + 10 \<le> 2147483647"
    by (simp add: MAX_STRING_LENGTH_def)
  from assms show "int (length s) + 10 \<le> 2147483647"
    by (simp add: MAX_STRING_LENGTH_def)
qed

lemma length_int32_bytes: "length (int32_bytes v) = 4"
  by (simp add: int32_bytes_def Let_def)

lemma int16_bytes_0: "int16_bytes 0 = [0, 0]"
  by (simp add: int16_bytes_def)

lemma overwrite_append:
  "overwrite bs (length xs) (xs @ ys) = xs @ bs @ drop (length bs) ys"
  by (simp add: overwrite_def)

lemma overwrite_zeros:
  "length bs \<le> n \<Longrightarrow>
   overwrite bs (length xs) (xs @ replicate n 0) = xs @ bs @ replicate (n - length bs) 0"
  by (simp add: overwrite_def)

lemma overwrite_zeros0:
  "length bs \<le> n \<Longrightarrow> overwrite bs 0 (replicate n 0) = bs @ replicate (n - length bs) 0"
  by (simp add: overwrite_def)

subsection \<open>Two's complement, on \<open>int\<close>\<close>

lemma signed_take_bit_31:
  fixes k :: int
  assumes "0 \<le> k" "k < 2 ^ 32"
  shows "signed_take_bit 31 k = (if k < 2 ^ 31 then k else k - 2 ^ 32)"
proof (cases "k < 2 ^ 31")
  case True
  with assms show ?thesis by (simp add: signed_take_bit_int_eq_self)
next
  case False
  have "signed_take_bit 31 k = take_bit 32 (k + 2 ^ 31) - 2 ^ 31"
    by (simp add: signed_take_bit_eq_take_bit_shift)
  also have "take_bit 32 (k + 2 ^ 31) = (k + 2 ^ 31) mod 2 ^ 32"
    by (simp add: take_bit_eq_mod)
  also have "(k + 2 ^ 31) mod 2 ^ 32 = k + 2 ^ 31 - 2 ^ 32"
    using False assms by (simp add: mod_pos_geq)
  finally show ?thesis using False by simp
qed

lemma uint_top_byte:
  fixes b :: byte
  shows "uint (push_bit 24 (ucast b) :: 32 word) = uint b * 2 ^ 24"
proof -
  have small: "uint b < 2 ^ 8" using uint_bounded [of b] by simp
  then have "uint b * 2 ^ 24 < 2 ^ 32" by simp
  moreover have "0 \<le> uint b * 2 ^ 24" by simp
  ultimately have "take_bit 32 (uint b * 2 ^ 24) = uint b * 2 ^ 24"
    by (simp add: take_bit_int_eq_self)
  moreover have "uint (ucast b :: 32 word) = uint b"
    using small by (simp add: unsigned_ucast_eq take_bit_int_eq_self)
  moreover have "uint (push_bit 24 (ucast b) :: 32 word)
      = take_bit 32 (push_bit 24 (uint (ucast b :: 32 word)))"
    by (subst unsigned_push_bit_eq) simp
  ultimately show ?thesis
    by (simp only: push_bit_eq_mult)
qed

text \<open>The formula of \<open>readInt32LE\<close> is the little-endian signed reading of the four bytes.\<close>

lemma read_formula:
  fixes b0 b1 b2 b3 :: byte
  shows "uint b0 + uint b1 * 2 ^ 8 + uint b2 * 2 ^ 16 + sint (push_bit 24 (ucast b3) :: 32 word)
       = le_sint32 [b0, b1, b2, b3]"
proof -
  define a where "a = uint b0 + uint b1 * 2 ^ 8 + uint b2 * 2 ^ 16"
  define t where "t = uint b3"
  have b: "uint b0 < 2 ^ 8" "uint b1 < 2 ^ 8" "uint b2 < 2 ^ 8" "t < 2 ^ 8"
    using uint_bounded [of b0] uint_bounded [of b1] uint_bounded [of b2] uint_bounded [of b3]
    by (simp_all add: t_def)
  have nn: "0 \<le> uint b0" "0 \<le> uint b1" "0 \<le> uint b2" "0 \<le> t"
    by (simp_all add: t_def)
  have a: "0 \<le> a" "a < 2 ^ 24"
    using b nn by (simp_all add: a_def)
  have top: "sint (push_bit 24 (ucast b3) :: 32 word) = signed_take_bit 31 (t * 2 ^ 24)"
    by (simp add: sint_uint uint_top_byte t_def)
  have t1: "signed_take_bit 31 (t * 2 ^ 24)
      = (if t * 2 ^ 24 < 2 ^ 31 then t * 2 ^ 24 else t * 2 ^ 24 - 2 ^ 32)"
    using b nn by (intro signed_take_bit_31) simp_all
  have t2: "signed_take_bit 31 (a + t * 2 ^ 24)
      = (if a + t * 2 ^ 24 < 2 ^ 31 then a + t * 2 ^ 24 else a + t * 2 ^ 24 - 2 ^ 32)"
    using a b nn by (intro signed_take_bit_31) simp_all
  have split: "(t * 2 ^ 24 < 2 ^ 31) = (a + t * 2 ^ 24 < 2 ^ 31)"
    using a b nn by auto
  have rhs: "le_sint32 [b0, b1, b2, b3] = signed_take_bit 31 (a + t * 2 ^ 24)"
    by (simp add: le_sint32_def le_value_def a_def t_def algebra_simps)
  have lhs: "uint b0 + uint b1 * 2 ^ 8 + uint b2 * 2 ^ 16
        + sint (push_bit 24 (ucast b3) :: 32 word)
      = a + signed_take_bit 31 (t * 2 ^ 24)"
    by (simp only: a_def top)
  have "a + signed_take_bit 31 (t * 2 ^ 24) = signed_take_bit 31 (a + t * 2 ^ 24)"
    unfolding t1 t2 using split by simp
  with lhs rhs show ?thesis by simp
qed

lemma bytes_sum:
  fixes x :: int
  assumes "0 \<le> x" "x < 2 ^ 32"
  shows "x mod 256 + 256 * (x div 256 mod 256
           + 256 * (x div 65536 mod 256 + 256 * (x div 16777216 mod 256))) = x"
proof -
  define y1 where "y1 = x div 256"
  define y2 where "y2 = y1 div 256"
  define y3 where "y3 = y2 div 256"
  have e2: "x div 65536 = y2"
    unfolding y2_def y1_def by (simp add: div_mult2_eq [symmetric])
  have e3: "x div 16777216 = y3"
    unfolding y3_def y2_def y1_def by (simp add: div_mult2_eq [symmetric])
  have "y3 < 256" "0 \<le> y3" using assms unfolding e3 [symmetric] by simp_all
  then have m3: "y3 mod 256 = y3" by simp
  have s2: "y2 mod 256 + 256 * y3 = y2" unfolding y3_def by simp
  have s1: "y1 mod 256 + 256 * y2 = y1" unfolding y2_def by simp
  have s0: "x mod 256 + 256 * y1 = x" unfolding y1_def by simp
  show ?thesis
    unfolding e2 e3 y1_def [symmetric] m3 s2 s1 s0 ..
qed

text \<open>The bytes \<open>writeInt32LE\<close> writes for an int32 read back as that int32.\<close>

lemma le_sint32_int32_bytes:
  assumes "is_int32 v"
  shows "le_sint32 (int32_bytes v) = v"
proof -
  define w where "w = (word_of_int v :: 32 word)"
  define x where "x = uint w"
  have x: "0 \<le> x" "x < 2 ^ 32" using uint_bounded [of w] by (simp_all add: x_def)
  have sw: "sint w = v"
    using assms unfolding w_def is_int32_def
    by (simp add: sint_sbintrunc' signed_take_bit_int_eq_self)
  have "le_sint32 (int32_bytes v) = signed_take_bit 31
     (x mod 256 + 256 * (x div 256 mod 256
        + 256 * (x div 65536 mod 256 + 256 * (x div 16777216 mod 256))))"
    by (simp add: le_sint32_def le_value_def int32_bytes_def Let_def w_def [symmetric] x_def
        unsigned_ucast_eq unsigned_drop_bit_eq take_bit_eq_mod drop_bit_eq_div uint_div_distrib)
  also have "\<dots> = signed_take_bit 31 x" using x by (simp only: bytes_sum)
  also have "\<dots> = sint w" by (simp add: x_def sint_uint)
  finally show ?thesis using sw by simp
qed

subsection \<open>ASCII\<close>

lemma ascii_char_take_bit: "ascii_char b = ucast (take_bit 7 b)"
proof -
  have "(0x7F :: byte) = mask 7" by (simp add: mask_eq_exp_minus_1)
  then show ?thesis by (simp only: ascii_char_def take_bit_eq_mask)
qed

lemma ascii_char_ucast:
  fixes c :: code_unit
  assumes "c < 0x80"
  shows "ascii_char (ucast c) = c"
proof (rule word_uint_eqI)
  have "uint c < 128" using assms by (simp add: word_less_def)
  then have "take_bit 7 (uint c) = uint c" by (simp add: take_bit_int_eq_self)
  then show "uint (ascii_char (ucast c)) = uint c"
    by (simp add: ascii_char_take_bit unsigned_ucast_eq unsigned_take_bit_eq min_def)
qed

lemma ascii_roundtrip: "is_ascii s \<Longrightarrow> map ascii_char (map ucast s) = s"
  by (induction s) (simp_all add: is_ascii_def ascii_char_ucast)

section \<open>Facts about the codec\<close>

text \<open>
  The buffer \<^verbatim>\<open>rcon_create_packet_structure\<close> builds, for any body: the three integers,
  the low byte of every code unit, zero bytes for what the UTF-8 length counts beyond the
  number of code units, and the two zero bytes of \<open>writeInt16LE\<close>.
\<close>

lemma create_layout:
  assumes id: "is_int32 ident" and ty: "is_int32 type"
    and len: "int (byteLength s) + 10 \<le> 2147483647"
  shows "rcon_create_packet_structure ident type s =
    Inr (int32_bytes (int (byteLength s) + 10) @ int32_bytes ident @ int32_bytes type
         @ map ucast s @ replicate (byteLength s - length s) 0 @ [0, 0])"
proof -
  define n where "n = byteLength s"
  define A where "A = int32_bytes (int n + 10)"
  define B where "B = int32_bytes ident"
  define C where "C = int32_bytes type"
  define S where "S = (map ucast s :: byte list)"
  have lA: "length A = 4" and lB: "length B = 4" and lC: "length C = 4"
    by (simp_all add: A_def B_def C_def length_int32_bytes)
  have lS: "length S = length s" by (simp add: S_def)
  have sn: "length s \<le> n" by (simp add: n_def length_le_byteLength)
  have eqA: "int (n + 14) - 4 = int n + 10" by simp
  have w1: "writeInt32LE (int (n + 14) - 4) 0 (alloc (n + 14)) = Inr (A @ replicate (n + 10) 0)"
    unfolding eqA using len overwrite_zeros0 [of A "n + 14"]
    by (simp add: writeInt32LE_def alloc_def lA n_def [symmetric] A_def [symmetric])
  have w2: "writeInt32LE ident 4 (A @ replicate (n + 10) 0) = Inr (A @ B @ replicate (n + 6) 0)"
    using id overwrite_zeros [of B "n + 10" A]
    by (simp add: writeInt32LE_def is_int32_def lA lB B_def [symmetric])
  have w3: "writeInt32LE type 8 (A @ B @ replicate (n + 6) 0)
      = Inr (A @ B @ C @ replicate (n + 2) 0)"
    using ty overwrite_zeros [of C "n + 6" "A @ B"]
    by (simp add: writeInt32LE_def is_int32_def lA lB lC C_def [symmetric])
  have w4: "write_ascii s 12 (n + 14 - 2) (A @ B @ C @ replicate (n + 2) 0)
      = Inr (A @ B @ C @ S @ replicate (n + 2 - length s) 0)"
    using sn overwrite_zeros [of S "n + 2" "A @ B @ C"]
    by (simp add: write_ascii_def lA lB lC lS S_def [symmetric])
  have split: "replicate (n + 2 - length s) (0 :: byte) = replicate (n - length s) 0 @ [0, 0]"
  proof -
    have "n + 2 - length s = (n - length s) + 2" using sn by simp
    then have "replicate (n + 2 - length s) (0 :: byte)
        = replicate (n - length s) 0 @ replicate 2 0"
      by (simp only: replicate_add)
    also have "replicate 2 (0 :: byte) = [0, 0]" by (simp add: numeral_2_eq_2)
    finally show ?thesis .
  qed
  define xs where "xs = A @ B @ C @ S @ replicate (n - length s) 0"
  have lx: "length xs = n + 14 - 2" using sn by (simp add: xs_def lA lB lC lS)
  have "overwrite [0, 0] (length xs) (xs @ [0, 0]) = xs @ [0, 0]"
    by (simp add: overwrite_append)
  then have ow: "overwrite [0, 0] (n + 14 - 2) (xs @ [0, 0]) = xs @ [0, 0]"
    unfolding lx .
  have "length (xs @ [0, 0 :: byte]) = n + 14" using lx by simp
  then have "writeInt16LE 0 (n + 14 - 2) (xs @ [0, 0]) = Inr (xs @ [0, 0])"
    using ow by (simp add: writeInt16LE_def int16_bytes_0)
  then have w5: "writeInt16LE 0 (n + 14 - 2) (A @ B @ C @ S @ replicate (n + 2 - length s) 0)
      = Inr (A @ B @ C @ S @ replicate (n - length s) 0 @ [0, 0])"
    unfolding split xs_def by simp
  have "rcon_create_packet_structure ident type s
      = Inr (A @ B @ C @ S @ replicate (n - length s) 0 @ [0, 0])"
    by (simp only: rcon_create_packet_structure_def Let_def n_def [symmetric]
          w1 w2 w3 w4 w5 sum.case)
  then show ?thesis
    by (simp only: A_def B_def C_def S_def n_def)
qed

lemma create_layout_ascii:
  assumes "is_int32 ident" "is_int32 type" "is_ascii s"
    and "int (length s) + 10 \<le> 2147483647"
  shows "rcon_create_packet_structure ident type s =
    Inr (int32_bytes (int (length s) + 10) @ int32_bytes ident @ int32_bytes type
         @ map ucast s @ [0, 0])"
  using create_layout [of ident type s] assms by (simp add: byteLength_ascii)

lemma take4_drop:
  assumes "off + 4 \<le> length buf"
  shows "take 4 (drop off buf) = [buf ! off, buf ! (off + 1), buf ! (off + 2), buf ! (off + 3)]"
proof -
  have "4 \<le> length (drop off buf)" using assms by simp
  then show ?thesis
    using assms by (simp add: numeral_eq_Suc take_Suc_conv_app_nth)
qed

lemma readInt32LE_le_sint32:
  assumes "off + 4 \<le> length buf"
  shows "readInt32LE off buf = Inr (le_sint32 (take 4 (drop off buf)))"
proof -
  have "\<not> length buf < off + 4" using assms by simp
  then show ?thesis
    by (simp only: readInt32LE_def if_False take4_drop [OF assms] read_formula)
qed

lemma readInt32LE_short: "length buf < off + 4 \<Longrightarrow> readInt32LE off buf = Inl RangeError"
  by (simp add: readInt32LE_def)

lemma toString_body:
  "12 \<le> length buf \<Longrightarrow>
   toString_ascii 12 (int (length buf) - 2) buf
     = map ascii_char (take (length buf - 14) (drop 12 buf))"
  by (auto simp: toString_ascii_def Let_def nat_diff_distrib)

lemma decode_eq:
  assumes "12 \<le> length buf"
  shows "rcon_get_packet_structure buf =
    Inr \<lparr>p_size = le_sint32 (take 4 buf),
         p_id = le_sint32 (take 4 (drop 4 buf)),
         p_type = le_sint32 (take 4 (drop 8 buf)),
         p_body = map ascii_char (take (length buf - 14) (drop 12 buf))\<rparr>"
proof -
  have r0: "readInt32LE 0 buf = Inr (le_sint32 (take 4 buf))"
    using assms readInt32LE_le_sint32 [of 0 buf] by simp
  have r4: "readInt32LE 4 buf = Inr (le_sint32 (take 4 (drop 4 buf)))"
    using assms by (intro readInt32LE_le_sint32) simp
  have r8: "readInt32LE 8 buf = Inr (le_sint32 (take 4 (drop 8 buf)))"
    using assms by (intro readInt32LE_le_sint32) simp
  show ?thesis
    using assms by (simp add: rcon_get_packet_structure_def r0 r4 r8 toString_body)
qed

lemma decode_short: "length buf < 12 \<Longrightarrow> rcon_get_packet_structure buf = Inl RangeError"
  by (auto simp: rcon_get_packet_structure_def readInt32LE_def split: sum.splits)

section \<open>The claims about the codec\<close>

text \<open>
  In the theorems below a body is bounded by \<open>int (length s) + 10 \<le> 2147483647\<close>: it is the
  condition under which \<open>writeInt32LE\<close> accepts the size field. By \<open>runtime_string_fits\<close>
  every string of the runtime meets it.
\<close>

text \<open>
  Claim C4. For every int32 id, int32 type and ASCII body, the encoded buffer has exactly
  \<open>length body + 14\<close> bytes; its first four bytes are the little-endian int32
  \<open>length body + 10\<close>, which is the total length minus 4; bytes 4 to 8 are the id, bytes 8
  to 12 the type; the body follows from byte 12, one byte per character; and the last two
  bytes, right after the body, are both zero.
\<close>

theorem encode_layout:
  assumes "is_int32 ident" and "is_int32 type" and "is_ascii body"
    and "int (length body) + 10 \<le> 2147483647"
  shows "\<exists>buf. rcon_create_packet_structure ident type body = Inr buf
      \<and> length buf = length body + 14
      \<and> le_sint32 (take 4 buf) = int (length body) + 10
      \<and> le_sint32 (take 4 buf) = int (length buf) - 4
      \<and> le_sint32 (take 4 (drop 4 buf)) = ident
      \<and> le_sint32 (take 4 (drop 8 buf)) = type
      \<and> take (length body) (drop 12 buf) = map ucast body
      \<and> drop (12 + length body) buf = [0, 0]"
proof -
  define A where "A = int32_bytes (int (length body) + 10)"
  define B where "B = int32_bytes ident"
  define C where "C = int32_bytes type"
  define S where "S = (map ucast body :: byte list)"
  define buf where "buf = A @ B @ C @ S @ [0, 0]"
  have l: "length A = 4" "length B = 4" "length C = 4" "length S = length body"
    by (simp_all add: A_def B_def C_def S_def length_int32_bytes)
  have enc: "rcon_create_packet_structure ident type body = Inr buf"
    using assms by (simp add: create_layout_ascii buf_def A_def B_def C_def S_def)
  have sz: "is_int32 (int (length body) + 10)"
    using assms(4) by (simp add: is_int32_def)
  have vA: "le_sint32 A = int (length body) + 10"
    unfolding A_def using sz by (rule le_sint32_int32_bytes)
  have vB: "le_sint32 B = ident"
    unfolding B_def using assms(1) by (rule le_sint32_int32_bytes)
  have vC: "le_sint32 C = type"
    unfolding C_def using assms(2) by (rule le_sint32_int32_bytes)
  have "length buf = length body + 14" by (simp add: buf_def l)
  moreover have "take 4 buf = A" by (simp add: buf_def l)
  moreover have "take 4 (drop 4 buf) = B" by (simp add: buf_def l)
  moreover have "take 4 (drop 8 buf) = C" by (simp add: buf_def l)
  moreover have "take (length body) (drop 12 buf) = S" by (simp add: buf_def l)
  moreover have "drop (12 + length body) buf = [0, 0]" by (simp add: buf_def l)
  ultimately show ?thesis
    using enc vA vB vC by (simp add: S_def)
qed

theorem encode_layout_witness:
  "is_int32 7 \<and> is_int32 2 \<and> is_ascii (js ''ping'')
   \<and> int (length (js ''ping'')) + 10 \<le> 2147483647
   \<and> (\<exists>buf. rcon_create_packet_structure 7 2 (js ''ping'') = Inr buf
        \<and> length buf = length (js ''ping'') + 14
        \<and> le_sint32 (take 4 buf) = int (length (js ''ping'')) + 10
        \<and> le_sint32 (take 4 buf) = int (length buf) - 4
        \<and> le_sint32 (take 4 (drop 4 buf)) = 7
        \<and> le_sint32 (take 4 (drop 8 buf)) = 2
        \<and> take (length (js ''ping'')) (drop 12 buf) = map ucast (js ''ping'')
        \<and> drop (12 + length (js ''ping'')) buf = [0, 0])"
proof -
  have h1: "is_int32 7" and h2: "is_int32 2" by (simp_all add: is_int32_def)
  have h3: "is_ascii (js ''ping'')" by (simp add: is_ascii_def js_def)
  have h4: "int (length (js ''ping'')) + 10 \<le> 2147483647" by (simp add: js_def)
  show ?thesis
    using encode_layout [OF h1 h2 h3 h4] h1 h2 h3 h4 by blast
qed

text \<open>
  Claim C1. For every ASCII string \<open>s\<close>, every int32 id and every int32 type, decoding the
  buffer that encoding \<open>(id, type, s)\<close> produces yields the packet with size
  \<open>length s + 10\<close>, that id, that type and body \<open>s\<close>.
\<close>

theorem decode_encode_roundtrip:
  assumes "is_int32 ident" and "is_int32 type" and "is_ascii s"
    and "int (length s) + 10 \<le> 2147483647"
  shows "\<exists>buf. rcon_create_packet_structure ident type s = Inr buf
      \<and> rcon_get_packet_structure buf
          = Inr \<lparr>p_size = int (length s) + 10, p_id = ident, p_type = type, p_body = s\<rparr>"
proof -
  define A where "A = int32_bytes (int (length s) + 10)"
  define B where "B = int32_bytes ident"
  define C where "C = int32_bytes type"
  define S where "S = (map ucast s :: byte list)"
  define buf where "buf = A @ B @ C @ S @ [0, 0]"
  have l: "length A = 4" "length B = 4" "length C = 4" "length S = length s"
    by (simp_all add: A_def B_def C_def S_def length_int32_bytes)
  have enc: "rcon_create_packet_structure ident type s = Inr buf"
    using assms by (simp add: create_layout_ascii buf_def A_def B_def C_def S_def)
  have sz: "is_int32 (int (length s) + 10)"
    using assms(4) by (simp add: is_int32_def)
  have vA: "le_sint32 A = int (length s) + 10"
    unfolding A_def using sz by (rule le_sint32_int32_bytes)
  have vB: "le_sint32 B = ident"
    unfolding B_def using assms(1) by (rule le_sint32_int32_bytes)
  have vC: "le_sint32 C = type"
    unfolding C_def using assms(2) by (rule le_sint32_int32_bytes)
  have vS: "map ascii_char S = s"
    unfolding S_def using assms(3) by (rule ascii_roundtrip)
  have len: "12 \<le> length buf" "length buf - 14 = length s" by (simp_all add: buf_def l)
  have parts: "take 4 buf = A" "take 4 (drop 4 buf) = B" "take 4 (drop 8 buf) = C"
    "take (length s) (drop 12 buf) = S"
    by (simp_all add: buf_def l)
  have "rcon_get_packet_structure buf
      = Inr \<lparr>p_size = int (length s) + 10, p_id = ident, p_type = type, p_body = s\<rparr>"
    by (simp add: decode_eq [OF len(1)] len(2) parts vA vB vC vS)
  with enc show ?thesis by blast
qed

theorem decode_encode_roundtrip_witness:
  "is_int32 (- 1) \<and> is_int32 0 \<and> is_ascii (js ''pong'')
   \<and> int (length (js ''pong'')) + 10 \<le> 2147483647
   \<and> (\<exists>buf. rcon_create_packet_structure (- 1) 0 (js ''pong'') = Inr buf
        \<and> rcon_get_packet_structure buf
            = Inr \<lparr>p_size = 14, p_id = - 1, p_type = 0, p_body = js ''pong''\<rparr>)"
proof -
  have h1: "is_int32 (- 1)" and h2: "is_int32 0" by (simp_all add: is_int32_def)
  have h3: "is_ascii (js ''pong'')" by (simp add: is_ascii_def js_def)
  have h4: "int (length (js ''pong'')) + 10 \<le> 2147483647" by (simp add: js_def)
  have "int (length (js ''pong'')) + 10 = 14" by (simp add: js_def)
  with decode_encode_roundtrip [OF h1 h2 h3 h4] h1 h2 h3 h4 show ?thesis by simp
qed

text \<open>
  Claim C5. For every buffer of at least 12 bytes, decoding reads size, id and type as
  little-endian signed int32 from the byte offsets 0, 4 and 8, and returns as body exactly
  the bytes from offset 12 up to the buffer's length minus 2, decoded as ASCII (Node clears
  the highest bit of each byte); the declared size takes no part in delimiting the body.
\<close>

theorem decode_fixed_offsets:
  assumes "12 \<le> length buf"
  shows "rcon_get_packet_structure buf =
    Inr \<lparr>p_size = le_sint32 (take 4 buf),
         p_id = le_sint32 (take 4 (drop 4 buf)),
         p_type = le_sint32 (take 4 (drop 8 buf)),
         p_body = map ascii_char (take (length buf - 2 - 12) (drop 12 buf))\<rparr>"
  using decode_eq [OF assms] by simp

theorem decode_fixed_offsets_witness:
  "12 \<le> length [200, 0, 0, 0, 0xFF, 0xFF, 0xFF, 0xFF, 2, 0, 0, 0, 0x6F, 0x6B, 0x21, 0, 0, 0 :: byte]
   \<and> rcon_get_packet_structure [200, 0, 0, 0, 0xFF, 0xFF, 0xFF, 0xFF, 2, 0, 0, 0, 0x6F, 0x6B, 0x21, 0, 0, 0]
       = Inr \<lparr>p_size = 200, p_id = - 1, p_type = 2, p_body = [0x6F, 0x6B, 0x21, 0]\<rparr>"
  using decode_fixed_offsets [of "[200, 0, 0, 0, 0xFF, 0xFF, 0xFF, 0xFF, 2, 0, 0, 0, 0x6F, 0x6B, 0x21, 0, 0, 0]"]
  by (simp add: le_sint32_def le_value_def ascii_char_def)

text \<open>
  Claim C10. For every buffer of at least 12 bytes, decoding returns a packet and raises
  nothing. Every read of the model is checked against the buffer's length, so a returned
  packet means that no read left the buffer; the body holds \<open>length buf - 14\<close> characters,
  none for a buffer of 12 or 13 bytes. The declared size is never a read bound: replacing
  the first four bytes by any other four changes the size field of the result and nothing
  else.
\<close>

theorem decode_total:
  assumes "12 \<le> length buf"
  shows "\<exists>p. rcon_get_packet_structure buf = Inr p
      \<and> length (p_body p) = length buf - 14
      \<and> (length buf \<le> 13 \<longrightarrow> p_body p = [])
      \<and> (\<forall>hdr. length hdr = 4 \<longrightarrow>
            rcon_get_packet_structure (hdr @ drop 4 buf) = Inr (p\<lparr>p_size := le_sint32 hdr\<rparr>))"
proof -
  define p where "p = \<lparr>p_size = le_sint32 (take 4 buf),
         p_id = le_sint32 (take 4 (drop 4 buf)),
         p_type = le_sint32 (take 4 (drop 8 buf)),
         p_body = map ascii_char (take (length buf - 14) (drop 12 buf))\<rparr>"
  have dec: "rcon_get_packet_structure buf = Inr p"
    unfolding p_def using assms by (rule decode_eq)
  have "rcon_get_packet_structure (hdr @ drop 4 buf) = Inr (p\<lparr>p_size := le_sint32 hdr\<rparr>)"
    if h: "length hdr = 4" for hdr
  proof -
    have len: "length (hdr @ drop 4 buf) = length buf" using assms h by simp
    then have "12 \<le> length (hdr @ drop 4 buf)" using assms by simp
    from decode_eq [OF this] show ?thesis
      unfolding len using h by (simp add: p_def)
  qed
  with dec show ?thesis by (auto simp: p_def)
qed

theorem decode_total_witness:
  "12 \<le> length [1, 2, 3, 4, 5, 6, 7, 8, 9, 10, 11, 12, 13 :: byte]
   \<and> (\<exists>p. rcon_get_packet_structure [1, 2, 3, 4, 5, 6, 7, 8, 9, 10, 11, 12, 13] = Inr p
          \<and> p_body p = [])"
proof -
  have h: "12 \<le> length [1, 2, 3, 4, 5, 6, 7, 8, 9, 10, 11, 12, 13 :: byte]" by simp
  from decode_total [OF h] obtain p
    where "rcon_get_packet_structure [1, 2, 3, 4, 5, 6, 7, 8, 9, 10, 11, 12, 13] = Inr p"
      and "length [1, 2, 3, 4, 5, 6, 7, 8, 9, 10, 11, 12, 13 :: byte] \<le> 13 \<longrightarrow> p_body p = []"
    by blast
  then show ?thesis using h by auto
qed

section \<open>Facts about the session\<close>

lemma send_eq:
  "send packet s =
    (length (promises s),
     s\<lparr>written := written s @ [packet],
       promises := promises s @ [Pending],
       data_listeners := [length (promises s)],
       error_listeners := [length (promises s)]\<rparr>)"
  by (simp add: send_def Let_def)

lemma resolve_fields:
  "length (promises (resolve q v s)) = length (promises s)"
  "data_listeners (resolve q v s) = data_listeners s"
  "error_listeners (resolve q v s) = error_listeners s"
  "written (resolve q v s) = written s"
  "uncaught (resolve q v s) = uncaught s"
  by (simp_all add: resolve_def)

lemma reject_fields:
  "length (promises (reject q e s)) = length (promises s)"
  "data_listeners (reject q e s) = data_listeners s"
  "error_listeners (reject q e s) = error_listeners s"
  "written (reject q e s) = written s"
  "uncaught (reject q e s) = uncaught s"
  by (simp_all add: reject_def)

lemma resolve_other:
  "p \<noteq> q \<or> promises s ! p \<noteq> Pending \<Longrightarrow> promises (resolve q v s) ! p = promises s ! p"
  by (auto simp: resolve_def)

lemma reject_other:
  "p \<noteq> q \<or> promises s ! p \<noteq> Pending \<Longrightarrow> promises (reject q e s) ! p = promises s ! p"
  by (auto simp: reject_def)

lemma resolve_pending:
  "p < length (promises s) \<Longrightarrow> promises s ! p = Pending \<Longrightarrow>
   promises (resolve p v s) ! p = Fulfilled v"
  by (simp add: resolve_def)

lemma data_listener_fields:
  "length (promises (fst (data_listener q data s))) = length (promises s)"
  "data_listeners (fst (data_listener q data s)) = data_listeners s"
  "error_listeners (fst (data_listener q data s)) = error_listeners s"
  "written (fst (data_listener q data s)) = written s"
  "uncaught (fst (data_listener q data s)) = uncaught s"
  by (simp_all add: data_listener_def resolve_fields split: sum.splits)

lemma data_listener_other:
  "p \<noteq> q \<or> promises s ! p \<noteq> Pending \<Longrightarrow>
   promises (fst (data_listener q data s)) ! p = promises s ! p"
  by (simp add: data_listener_def resolve_other split: sum.splits)

lemma call_data_listeners_fields:
  "length (promises (fst (call_data_listeners ps data s))) = length (promises s)
   \<and> data_listeners (fst (call_data_listeners ps data s)) = data_listeners s
   \<and> error_listeners (fst (call_data_listeners ps data s)) = error_listeners s
   \<and> written (fst (call_data_listeners ps data s)) = written s
   \<and> uncaught (fst (call_data_listeners ps data s)) = uncaught s"
proof (induction ps arbitrary: s)
  case Nil
  show ?case by simp
next
  case (Cons q ps)
  obtain s' r where d: "data_listener q data s = (s', r)" by (cases "data_listener q data s")
  have f: "length (promises s') = length (promises s)" "data_listeners s' = data_listeners s"
    "error_listeners s' = error_listeners s" "written s' = written s" "uncaught s' = uncaught s"
    using data_listener_fields [of q data s] d by simp_all
  show ?case
  proof (cases r)
    case None
    with d f Cons.IH [of s'] show ?thesis by simp
  next
    case (Some e)
    with d f show ?thesis by simp
  qed
qed

lemma call_data_listeners_other:
  "p \<notin> set ps \<or> promises s ! p \<noteq> Pending \<Longrightarrow>
   promises (fst (call_data_listeners ps data s)) ! p = promises s ! p"
proof (induction ps arbitrary: s)
  case Nil
  show ?case by simp
next
  case (Cons q ps)
  obtain s' r where d: "data_listener q data s = (s', r)" by (cases "data_listener q data s")
  have keep: "promises s' ! p = promises s ! p"
    using data_listener_other [of p q s data] d Cons.prems by auto
  show ?case
  proof (cases r)
    case None
    have "p \<notin> set ps \<or> promises s' ! p \<noteq> Pending" using Cons.prems keep by auto
    from Cons.IH [OF this] d None keep show ?thesis by simp
  next
    case (Some e)
    with d keep show ?thesis by simp
  qed
qed

lemma emit_data_fields:
  "length (promises (emit_data data s)) = length (promises s)"
  "data_listeners (emit_data data s) = data_listeners s"
  "error_listeners (emit_data data s) = error_listeners s"
  "written (emit_data data s) = written s"
  using call_data_listeners_fields [of "data_listeners s" data s]
  by (auto simp: emit_data_def split: prod.splits option.splits)

lemma emit_data_other:
  "p \<notin> set (data_listeners s) \<or> promises s ! p \<noteq> Pending \<Longrightarrow>
   promises (emit_data data s) ! p = promises s ! p"
  using call_data_listeners_other [of p "data_listeners s" s data]
  by (auto simp: emit_data_def split: prod.splits option.splits)

lemma foldl_reject_fields:
  "length (promises (foldl (\<lambda>s' p. reject p e s') s ps)) = length (promises s)
   \<and> data_listeners (foldl (\<lambda>s' p. reject p e s') s ps) = data_listeners s
   \<and> error_listeners (foldl (\<lambda>s' p. reject p e s') s ps) = error_listeners s
   \<and> written (foldl (\<lambda>s' p. reject p e s') s ps) = written s
   \<and> uncaught (foldl (\<lambda>s' p. reject p e s') s ps) = uncaught s"
  by (induction ps arbitrary: s) (simp_all add: reject_fields)

lemma foldl_reject_other:
  "p \<notin> set ps \<or> promises s ! p \<noteq> Pending \<Longrightarrow>
   promises (foldl (\<lambda>s' q. reject q e s') s ps) ! p = promises s ! p"
proof (induction ps arbitrary: s)
  case Nil
  show ?case by simp
next
  case (Cons q ps)
  have keep: "promises (reject q e s) ! p = promises s ! p"
    using Cons.prems by (intro reject_other) auto
  have "p \<notin> set ps \<or> promises (reject q e s) ! p \<noteq> Pending"
    using Cons.prems keep by auto
  from Cons.IH [OF this] keep show ?case by simp
qed

lemma emit_error_fields:
  "length (promises (emit_error e s)) = length (promises s)"
  "data_listeners (emit_error e s) = data_listeners s"
  "error_listeners (emit_error e s) = error_listeners s"
  "written (emit_error e s) = written s"
  using foldl_reject_fields [of e s "error_listeners s"]
  by (simp_all add: emit_error_def)

lemma emit_error_other:
  "p \<notin> set (error_listeners s) \<or> promises s ! p \<noteq> Pending \<Longrightarrow>
   promises (emit_error e s) ! p = promises s ! p"
  using foldl_reject_other [of p "error_listeners s" s e]
  by (simp add: emit_error_def)

lemma send_fields:
  "fst (send packet s) = length (promises s)"
  "promises (snd (send packet s)) = promises s @ [Pending]"
  "data_listeners (snd (send packet s)) = [length (promises s)]"
  "error_listeners (snd (send packet s)) = [length (promises s)]"
  "written (snd (send packet s)) = written s @ [packet]"
  "uncaught (snd (send packet s)) = uncaught s"
  by (simp_all add: send_eq)

lemma rejected_promise_fields:
  "fst (rejected_promise e s) = length (promises s)"
  "promises (snd (rejected_promise e s)) = promises s @ [Rejected e]"
  "data_listeners (snd (rejected_promise e s)) = data_listeners s"
  "error_listeners (snd (rejected_promise e s)) = error_listeners s"
  "written (snd (rejected_promise e s)) = written s"
  "uncaught (snd (rejected_promise e s)) = uncaught s"
  by (simp_all add: rejected_promise_def)

lemma detached_send:
  assumes "detached p s"
  shows "detached p (snd (send packet s)) \<and> promises (snd (send packet s)) ! p = promises s ! p"
  using assms by (auto simp: detached_def send_fields nth_append)

lemma detached_rejected_promise:
  assumes "detached p s"
  shows "detached p (snd (rejected_promise e s))
       \<and> promises (snd (rejected_promise e s)) ! p = promises s ! p"
  using assms by (auto simp: detached_def rejected_promise_fields nth_append)

lemma detached_auth:
  assumes "detached p s"
  shows "detached p (snd (auth password s)) \<and> promises (snd (auth password s)) ! p = promises s ! p"
  using detached_send [OF assms] detached_rejected_promise [OF assms]
  by (simp add: auth_def split: sum.splits)

lemma detached_command:
  assumes "detached p s"
  shows "detached p (snd (command name r s))
       \<and> promises (snd (command name r s)) ! p = promises s ! p"
  using detached_send [OF assms] detached_rejected_promise [OF assms]
  by (simp add: command_def split: sum.splits)

lemma detached_emit_data:
  assumes "detached p s"
  shows "detached p (emit_data data s) \<and> promises (emit_data data s) ! p = promises s ! p"
proof -
  have keep: "promises (emit_data data s) ! p = promises s ! p"
    using assms by (intro emit_data_other) (auto simp: detached_def)
  with assms show ?thesis by (auto simp: detached_def emit_data_fields)
qed

lemma detached_emit_error:
  assumes "detached p s"
  shows "detached p (emit_error e s) \<and> promises (emit_error e s) ! p = promises s ! p"
proof -
  have keep: "promises (emit_error e s) ! p = promises s ! p"
    using assms by (intro emit_error_other) (auto simp: detached_def)
  with assms show ?thesis by (auto simp: detached_def emit_error_fields)
qed

lemma detached_step:
  assumes "detached p s"
  shows "detached p (step ev s) \<and> promises (step ev s) ! p = promises s ! p"
  using detached_send [OF assms] detached_auth [OF assms] detached_command [OF assms]
    detached_emit_data [OF assms] detached_emit_error [OF assms] assms
  by (cases ev) (simp_all add: step_def)

lemma detached_run:
  "detached p s \<Longrightarrow> detached p (run evs s) \<and> promises (run evs s) ! p = promises s ! p"
proof (induction evs arbitrary: s)
  case Nil
  then show ?case by (simp add: run_def)
next
  case (Cons ev evs)
  from detached_step [OF Cons.prems, of ev]
  have d: "detached p (step ev s)" and k: "promises (step ev s) ! p = promises s ! p" by simp_all
  from Cons.IH [OF d] k show ?case by (simp add: run_def)
qed

lemma one_data_listener_step:
  "length (data_listeners s) \<le> 1 \<Longrightarrow> length (data_listeners (step ev s)) \<le> 1"
  by (cases ev)
     (simp_all add: step_def send_fields rejected_promise_fields emit_data_fields
        emit_error_fields auth_def command_def split: sum.splits)

lemma one_data_listener_run:
  "length (data_listeners s) \<le> 1 \<Longrightarrow> length (data_listeners (run evs s)) \<le> 1"
proof (induction evs arbitrary: s)
  case Nil
  then show ?case by (simp add: run_def)
next
  case (Cons ev evs)
  from Cons.IH [OF one_data_listener_step [OF Cons.prems, of ev]] show ?case
    by (simp add: run_def)
qed

lemma emit_data_single:
  assumes "data_listeners s = [p]"
  shows "emit_data data s =
    (case data_listener p data s of
       (s', None) \<Rightarrow> s'
     | (s', Some e) \<Rightarrow> s'\<lparr>uncaught := uncaught s' @ [e]\<rparr>)"
  using assms by (simp add: emit_data_def split: prod.splits option.splits)

lemma emit_data_resolves:
  assumes "data_listeners s = [p]" and "rcon_get_packet_structure data = Inr packet"
    and "\<not> wrong_password packet"
  shows "emit_data data s = resolve p (JSPacket packet) s"
  using assms by (auto simp: emit_data_single data_listener_def wrong_password_def)

lemma emit_data_throws:
  assumes "data_listeners s = [p]" and "rcon_get_packet_structure data = Inr packet"
    and "wrong_password packet"
  shows "emit_data data s = s\<lparr>uncaught := uncaught s @ [Error ''Wrong RCON password!'']\<rparr>"
  using assms by (auto simp: emit_data_single data_listener_def wrong_password_def)

lemma promises_grow_step: "length (promises s) \<le> length (promises (step ev s))"
  by (cases ev)
     (simp_all add: step_def send_fields rejected_promise_fields emit_data_fields
        emit_error_fields auth_def command_def split: sum.splits)

lemma promises_grow_run: "length (promises s) \<le> length (promises (run evs s))"
proof (induction evs arbitrary: s)
  case Nil
  show ?case by (simp add: run_def)
next
  case (Cons ev evs)
  have "length (promises s) \<le> length (promises (step ev s))" by (rule promises_grow_step)
  also have "\<dots> \<le> length (promises (run evs (step ev s)))" by (rule Cons.IH)
  finally show ?case by (simp add: run_def)
qed

lemma create_header:
  assumes "is_int32 ident" and "is_int32 type"
    and "int (byteLength s) + 10 \<le> 2147483647"
  shows "\<exists>buf. rcon_create_packet_structure ident type s = Inr buf
      \<and> le_sint32 (take 4 (drop 4 buf)) = ident
      \<and> le_sint32 (take 4 (drop 8 buf)) = type
      \<and> take (length s) (drop 12 buf) = map ucast s"
proof -
  define A where "A = int32_bytes (int (byteLength s) + 10)"
  define B where "B = int32_bytes ident"
  define C where "C = int32_bytes type"
  define S where "S = (map ucast s :: byte list)"
  define Z where "Z = replicate (byteLength s - length s) (0 :: byte) @ [0, 0]"
  define buf where "buf = A @ B @ C @ S @ Z"
  have l: "length A = 4" "length B = 4" "length C = 4" "length S = length s"
    by (simp_all add: A_def B_def C_def S_def length_int32_bytes)
  have enc: "rcon_create_packet_structure ident type s = Inr buf"
    using assms by (simp add: create_layout buf_def A_def B_def C_def S_def Z_def)
  have vB: "le_sint32 B = ident"
    unfolding B_def using assms(1) by (rule le_sint32_int32_bytes)
  have vC: "le_sint32 C = type"
    unfolding C_def using assms(2) by (rule le_sint32_int32_bytes)
  have "take 4 (drop 4 buf) = B" by (simp add: buf_def l)
  moreover have "take 4 (drop 8 buf) = C" by (simp add: buf_def l)
  moreover have "take (length s) (drop 12 buf) = S" by (simp add: buf_def l)
  ultimately show ?thesis
    using enc vB vC by (simp add: S_def)
qed

lemma send_state:
  assumes "send buf s = (p, s')"
  shows "p = length (promises s)" and "p < length (promises s')"
    and "promises s' ! p = Pending" and "data_listeners s' = [p]"
    and "error_listeners s' = [p]" and "written s' = written s @ [buf]"
proof -
  have p: "p = length (promises s)" and s': "s' = snd (send buf s)"
    using assms send_fields(1) [of buf s] by simp_all
  show "p = length (promises s)" by (rule p)
  show "p < length (promises s')" by (simp add: p s' send_fields)
  show "promises s' ! p = Pending" by (simp add: p s' send_fields)
  show "data_listeners s' = [p]" by (simp add: p s' send_fields)
  show "error_listeners s' = [p]" by (simp add: p s' send_fields)
  show "written s' = written s @ [buf]" by (simp add: s' send_fields)
qed

lemma send_then_packet:
  assumes "send buf s = (p, s')" and "rcon_get_packet_structure data = Inr packet"
    and "\<not> wrong_password packet"
  shows "promises (emit_data data s') ! p = Fulfilled (JSPacket packet)"
    and "promises (run evs (emit_data data s')) ! p = Fulfilled (JSPacket packet)"
proof -
  note st = send_state [OF assms(1)]
  have e: "emit_data data s' = resolve p (JSPacket packet) s'"
    using st(4) assms(2,3) by (rule emit_data_resolves)
  show f: "promises (emit_data data s') ! p = Fulfilled (JSPacket packet)"
    unfolding e using st(2,3) by (rule resolve_pending)
  have "detached p (emit_data data s')"
    using f st(2) by (simp add: detached_def emit_data_fields)
  from detached_run [OF this, of evs] f
  show "promises (run evs (emit_data data s')) ! p = Fulfilled (JSPacket packet)" by simp
qed

lemma wrong_password_packet_throws:
  assumes "send buf s = (p, s')" and "rcon_get_packet_structure data = Inr packet"
    and "wrong_password packet"
  shows "promises (emit_data data s') ! p = Pending"
    and "uncaught (emit_data data s') = uncaught s @ [Error ''Wrong RCON password!'']"
proof -
  note st = send_state [OF assms(1)]
  have u: "uncaught s' = uncaught s" using assms(1) by (auto simp: send_eq)
  have e: "emit_data data s' = s'\<lparr>uncaught := uncaught s' @ [Error ''Wrong RCON password!'']\<rparr>"
    using st(4) assms(2,3) by (rule emit_data_throws)
  show "promises (emit_data data s') ! p = Pending" unfolding e using st(3) by simp
  show "uncaught (emit_data data s') = uncaught s @ [Error ''Wrong RCON password!'']"
    unfolding e using u by simp
qed

section \<open>The claims about the session\<close>

text \<open>
  In the theorems below a password or command is bounded by
  \<open>int (byteLength s) + 10 \<le> 2147483647\<close>, the condition under which \<open>writeInt32LE\<close>
  accepts the size field; by \<open>runtime_string_fits\<close> every string of the runtime meets it.
  A chunk the socket emits is taken as a packet when \<open>rcon_get_packet_structure\<close> decodes
  it, that is when it has at least 12 bytes.
\<close>

text \<open>
  Claim C6. For every password, \<^verbatim>\<open>auth(password)\<close> writes exactly one packet, the encoding
  of id 10, type \<^verbatim>\<open>SERVERDATA_AUTH\<close> (3) and the password as body, and then awaits exactly
  one response packet: its promise is pending, the only \<^verbatim>\<open>'data'\<close> listener is its own,
  the first packet to arrive fulfils the promise, and nothing that happens later changes
  it.
\<close>

theorem auth_writes_one_packet:
  assumes "int (byteLength password) + 10 \<le> 2147483647" and "auth password s = (p, s')"
  shows "\<exists>buf. rcon_create_packet_structure 10 SERVERDATA_AUTH password = Inr buf
      \<and> SERVERDATA_AUTH = 3
      \<and> le_sint32 (take 4 (drop 4 buf)) = 10
      \<and> le_sint32 (take 4 (drop 8 buf)) = 3
      \<and> take (length password) (drop 12 buf) = map ucast password
      \<and> written s' = written s @ [buf]
      \<and> promises s' ! p = Pending
      \<and> data_listeners s' = [p]
      \<and> (\<forall>data packet.
            rcon_get_packet_structure data = Inr packet \<longrightarrow> \<not> wrong_password packet \<longrightarrow>
              promises (emit_data data s') ! p = Fulfilled (JSPacket packet)
              \<and> (\<forall>evs. promises (run evs (emit_data data s')) ! p = Fulfilled (JSPacket packet)))"
proof -
  have "is_int32 10" "is_int32 SERVERDATA_AUTH" by (simp_all add: is_int32_def SERVERDATA_AUTH_def)
  from create_header [OF this assms(1)] obtain buf
    where enc: "rcon_create_packet_structure 10 SERVERDATA_AUTH password = Inr buf"
      and hdr: "le_sint32 (take 4 (drop 4 buf)) = 10"
        "le_sint32 (take 4 (drop 8 buf)) = SERVERDATA_AUTH"
        "take (length password) (drop 12 buf) = map ucast password"
    by blast
  have snd: "send buf s = (p, s')" using assms(2) enc by (simp add: auth_def)
  show ?thesis
    using enc hdr send_state [OF snd] send_then_packet [OF snd]
    by (simp add: SERVERDATA_AUTH_def)
qed

theorem auth_writes_one_packet_witness:
  "int (byteLength (js ''pw'')) + 10 \<le> 2147483647
   \<and> auth (js ''pw'') connected
       = (1, \<lparr>written = [[12, 0, 0, 0, 10, 0, 0, 0, 3, 0, 0, 0, 0x70, 0x77, 0, 0]],
              data_listeners = [1], error_listeners = [1],
              promises = [Fulfilled JSSocket, Pending], uncaught = []\<rparr>)
   \<and> rcon_get_packet_structure [10, 0, 0, 0, 10, 0, 0, 0, 2, 0, 0, 0, 0, 0]
       = Inr \<lparr>p_size = 10, p_id = 10, p_type = 2, p_body = []\<rparr>
   \<and> \<not> wrong_password \<lparr>p_size = 10, p_id = 10, p_type = 2, p_body = []\<rparr>
   \<and> (\<exists>buf. rcon_create_packet_structure 10 SERVERDATA_AUTH (js ''pw'') = Inr buf
         \<and> le_sint32 (take 4 (drop 4 buf)) = 10
         \<and> le_sint32 (take 4 (drop 8 buf)) = 3
         \<and> written \<lparr>written = [[12, 0, 0, 0, 10, 0, 0, 0, 3, 0, 0, 0, 0x70, 0x77, 0, 0]],
              data_listeners = [1], error_listeners = [1],
              promises = [Fulfilled JSSocket, Pending], uncaught = []\<rparr>
             = written connected @ [buf])
   \<and> promises (emit_data [10, 0, 0, 0, 10, 0, 0, 0, 2, 0, 0, 0, 0, 0]
        \<lparr>written = [[12, 0, 0, 0, 10, 0, 0, 0, 3, 0, 0, 0, 0x70, 0x77, 0, 0]],
              data_listeners = [1], error_listeners = [1],
              promises = [Fulfilled JSSocket, Pending], uncaught = []\<rparr>) ! 1
       = Fulfilled (JSPacket \<lparr>p_size = 10, p_id = 10, p_type = 2, p_body = []\<rparr>)"
proof -
  define s1 where "s1 = \<lparr>written = [[12, 0, 0, 0, 10, 0, 0, 0, 3, 0, 0, 0, 0x70, 0x77, 0, 0 :: byte]],
              data_listeners = [1], error_listeners = [1],
              promises = [Fulfilled JSSocket, Pending], uncaught = []\<rparr>"
  have h1: "int (byteLength (js ''pw'')) + 10 \<le> 2147483647"
    by (simp add: js_def utf8_size_def is_lead_def)
  have h2: "auth (js ''pw'') connected = (1, s1)"
    by (simp add: eval_defs s1_def)
  have h3: "rcon_get_packet_structure [10, 0, 0, 0, 10, 0, 0, 0, 2, 0, 0, 0, 0, 0]
       = Inr \<lparr>p_size = 10, p_id = 10, p_type = 2, p_body = []\<rparr>"
    by (simp add: eval_defs)
  have h4: "\<not> wrong_password \<lparr>p_size = 10, p_id = 10, p_type = 2, p_body = []\<rparr>"
    by (simp add: wrong_password_def)
  from auth_writes_one_packet [OF h1 h2] h3 h4
  have "(\<exists>buf. rcon_create_packet_structure 10 SERVERDATA_AUTH (js ''pw'') = Inr buf
         \<and> le_sint32 (take 4 (drop 4 buf)) = 10
         \<and> le_sint32 (take 4 (drop 8 buf)) = 3
         \<and> written s1 = written connected @ [buf])
     \<and> promises (emit_data [10, 0, 0, 0, 10, 0, 0, 0, 2, 0, 0, 0, 0, 0] s1) ! 1
       = Fulfilled (JSPacket \<lparr>p_size = 10, p_id = 10, p_type = 2, p_body = []\<rparr>)"
    by blast
  with h1 h2 h3 h4 show ?thesis unfolding s1_def by blast
qed

text \<open>
  Claim C7, amended. For every command body, \<^verbatim>\<open>command(body)\<close> writes exactly one packet,
  the encoding of an id in \<open>[0, 10000)\<close>, type \<^verbatim>\<open>SERVERDATA_EXECCOMMAND\<close> (2) and the body,
  and resolves with the first packet to arrive after the write, whatever the id of that
  packet, unless the packet has type 2 and id -1. No hypothesis relates the id of the
  packet to the id of the request.
\<close>

theorem command_writes_one_packet:
  assumes "int (byteLength name) + 10 \<le> 2147483647" and "command name r s = (p, s')"
  shows "\<exists>buf. rcon_create_packet_structure (randomInt 10000 r) SERVERDATA_EXECCOMMAND name = Inr buf
      \<and> SERVERDATA_EXECCOMMAND = 2
      \<and> 0 \<le> randomInt 10000 r \<and> randomInt 10000 r < 10000
      \<and> le_sint32 (take 4 (drop 4 buf)) = randomInt 10000 r
      \<and> le_sint32 (take 4 (drop 8 buf)) = 2
      \<and> take (length name) (drop 12 buf) = map ucast name
      \<and> written s' = written s @ [buf]
      \<and> promises s' ! p = Pending
      \<and> (\<forall>data packet.
            rcon_get_packet_structure data = Inr packet \<longrightarrow> \<not> wrong_password packet \<longrightarrow>
              promises (emit_data data s') ! p = Fulfilled (JSPacket packet))"
proof -
  have rng: "0 \<le> randomInt 10000 r" "randomInt 10000 r < 10000"
    by (simp_all add: randomInt_def)
  then have "is_int32 (randomInt 10000 r)" by (simp add: is_int32_def)
  moreover have "is_int32 SERVERDATA_EXECCOMMAND"
    by (simp add: is_int32_def SERVERDATA_EXECCOMMAND_def)
  ultimately obtain buf
    where enc: "rcon_create_packet_structure (randomInt 10000 r) SERVERDATA_EXECCOMMAND name
                = Inr buf"
      and hdr: "le_sint32 (take 4 (drop 4 buf)) = randomInt 10000 r"
        "le_sint32 (take 4 (drop 8 buf)) = SERVERDATA_EXECCOMMAND"
        "take (length name) (drop 12 buf) = map ucast name"
    using create_header [OF _ _ assms(1)] by blast
  have snd: "send buf s = (p, s')" using assms(2) enc by (simp add: command_def)
  show ?thesis
    using enc hdr rng send_state [OF snd] send_then_packet(1) [OF snd]
    by (simp add: SERVERDATA_EXECCOMMAND_def)
qed

theorem command_writes_one_packet_witness:
  "int (byteLength (js ''ping'')) + 10 \<le> 2147483647
   \<and> command (js ''ping'') 12345 connected
       = (1, \<lparr>written = [[14, 0, 0, 0, 41, 9, 0, 0, 2, 0, 0, 0, 0x70, 0x69, 0x6E, 0x67, 0, 0]],
              data_listeners = [1], error_listeners = [1],
              promises = [Fulfilled JSSocket, Pending], uncaught = []\<rparr>)
   \<and> rcon_get_packet_structure [14, 0, 0, 0, 42, 0, 0, 0, 0, 0, 0, 0, 0x70, 0x6F, 0x6E, 0x67, 0, 0]
       = Inr \<lparr>p_size = 14, p_id = 42, p_type = 0, p_body = js ''pong''\<rparr>
   \<and> \<not> wrong_password \<lparr>p_size = 14, p_id = 42, p_type = 0, p_body = js ''pong''\<rparr>
   \<and> promises (emit_data [14, 0, 0, 0, 42, 0, 0, 0, 0, 0, 0, 0, 0x70, 0x6F, 0x6E, 0x67, 0, 0]
        \<lparr>written = [[14, 0, 0, 0, 41, 9, 0, 0, 2, 0, 0, 0, 0x70, 0x69, 0x6E, 0x67, 0, 0]],
              data_listeners = [1], error_listeners = [1],
              promises = [Fulfilled JSSocket, Pending], uncaught = []\<rparr>) ! 1
       = Fulfilled (JSPacket \<lparr>p_size = 14, p_id = 42, p_type = 0, p_body = js ''pong''\<rparr>)"
proof -
  have h1: "int (byteLength (js ''ping'')) + 10 \<le> 2147483647"
    by (simp add: js_def utf8_size_def is_lead_def)
  have h2: "command (js ''ping'') 12345 connected
       = (1, \<lparr>written = [[14, 0, 0, 0, 41, 9, 0, 0, 2, 0, 0, 0, 0x70, 0x69, 0x6E, 0x67, 0, 0]],
              data_listeners = [1], error_listeners = [1],
              promises = [Fulfilled JSSocket, Pending], uncaught = []\<rparr>)"
    by (simp add: eval_defs)
  have h3: "rcon_get_packet_structure [14, 0, 0, 0, 42, 0, 0, 0, 0, 0, 0, 0, 0x70, 0x6F, 0x6E, 0x67, 0, 0]
       = Inr \<lparr>p_size = 14, p_id = 42, p_type = 0, p_body = js ''pong''\<rparr>"
    by (simp add: eval_defs)
  have h4: "\<not> wrong_password \<lparr>p_size = 14, p_id = 42, p_type = 0, p_body = js ''pong''\<rparr>"
    by (simp add: wrong_password_def)
  from command_writes_one_packet [OF h1 h2] h1 h2 h3 h4 show ?thesis by blast
qed

text \<open>
  Claim C7 as stated fails: the first packet after the write has type 2 and id -1, an id
  other than the one of the request, and the call is not resolved with it.
\<close>

theorem command_wrong_password_packet_counterexample:
  "rcon_get_packet_structure [10, 0, 0, 0, 0xFF, 0xFF, 0xFF, 0xFF, 2, 0, 0, 0, 0, 0]
     = Inr \<lparr>p_size = 10, p_id = - 1, p_type = 2, p_body = []\<rparr>
   \<and> promises (emit_data [10, 0, 0, 0, 0xFF, 0xFF, 0xFF, 0xFF, 2, 0, 0, 0, 0, 0]
        (snd (command (js ''ping'') 12345 connected))) ! fst (command (js ''ping'') 12345 connected)
     = Pending"
  by (simp add: eval_defs)

text \<open>
  Claim C3, amended. For every command text, \<^verbatim>\<open>command(text)\<close> resolves with the decoded
  response packet, the structure of size, id, type and body, and not with the body string.
\<close>

theorem command_resolves_with_packet:
  assumes "int (byteLength name) + 10 \<le> 2147483647" and "command name r s = (p, s')"
    and "rcon_get_packet_structure data = Inr packet" and "\<not> wrong_password packet"
  shows "promises (emit_data data s') ! p = Fulfilled (JSPacket packet)
       \<and> promises (emit_data data s') ! p \<noteq> Fulfilled (JSString (p_body packet))"
proof -
  have "is_int32 (randomInt 10000 r)" by (simp add: is_int32_def randomInt_def)
  moreover have "is_int32 SERVERDATA_EXECCOMMAND"
    by (simp add: is_int32_def SERVERDATA_EXECCOMMAND_def)
  ultimately obtain buf
    where "rcon_create_packet_structure (randomInt 10000 r) SERVERDATA_EXECCOMMAND name = Inr buf"
    using create_header [OF _ _ assms(1)] by blast
  then have "send buf s = (p, s')" using assms(2) by (simp add: command_def)
  from send_then_packet(1) [OF this assms(3,4)] show ?thesis by simp
qed

theorem command_resolves_with_packet_witness:
  "int (byteLength (js ''ping'')) + 10 \<le> 2147483647
   \<and> command (js ''ping'') 42 connected
       = (1, \<lparr>written = [[14, 0, 0, 0, 42, 0, 0, 0, 2, 0, 0, 0, 0x70, 0x69, 0x6E, 0x67, 0, 0]],
              data_listeners = [1], error_listeners = [1],
              promises = [Fulfilled JSSocket, Pending], uncaught = []\<rparr>)
   \<and> rcon_get_packet_structure [14, 0, 0, 0, 42, 0, 0, 0, 0, 0, 0, 0, 0x70, 0x6F, 0x6E, 0x67, 0, 0]
       = Inr \<lparr>p_size = 14, p_id = 42, p_type = 0, p_body = js ''pong''\<rparr>
   \<and> \<not> wrong_password \<lparr>p_size = 14, p_id = 42, p_type = 0, p_body = js ''pong''\<rparr>
   \<and> promises (emit_data [14, 0, 0, 0, 42, 0, 0, 0, 0, 0, 0, 0, 0x70, 0x6F, 0x6E, 0x67, 0, 0]
        \<lparr>written = [[14, 0, 0, 0, 42, 0, 0, 0, 2, 0, 0, 0, 0x70, 0x69, 0x6E, 0x67, 0, 0]],
              data_listeners = [1], error_listeners = [1],
              promises = [Fulfilled JSSocket, Pending], uncaught = []\<rparr>) ! 1
       = Fulfilled (JSPacket \<lparr>p_size = 14, p_id = 42, p_type = 0, p_body = js ''pong''\<rparr>)"
proof -
  have h1: "int (byteLength (js ''ping'')) + 10 \<le> 2147483647"
    by (simp add: js_def utf8_size_def is_lead_def)
  have h2: "command (js ''ping'') 42 connected
       = (1, \<lparr>written = [[14, 0, 0, 0, 42, 0, 0, 0, 2, 0, 0, 0, 0x70, 0x69, 0x6E, 0x67, 0, 0]],
              data_listeners = [1], error_listeners = [1],
              promises = [Fulfilled JSSocket, Pending], uncaught = []\<rparr>)"
    by (simp add: eval_defs)
  have h3: "rcon_get_packet_structure [14, 0, 0, 0, 42, 0, 0, 0, 0, 0, 0, 0, 0x70, 0x6F, 0x6E, 0x67, 0, 0]
       = Inr \<lparr>p_size = 14, p_id = 42, p_type = 0, p_body = js ''pong''\<rparr>"
    by (simp add: eval_defs)
  have h4: "\<not> wrong_password \<lparr>p_size = 14, p_id = 42, p_type = 0, p_body = js ''pong''\<rparr>"
    by (simp add: wrong_password_def)
  from command_resolves_with_packet [OF h1 h2 h3 h4] h1 h2 h3 h4 show ?thesis by blast
qed

text \<open>
  Claim C3 as stated fails: for a response whose decoded body is \<^verbatim>\<open>pong\<close>, the promise of
  \<^verbatim>\<open>command("ping")\<close> is fulfilled with the packet structure that holds \<^verbatim>\<open>pong\<close>, and not
  with the string \<^verbatim>\<open>pong\<close>.
\<close>

theorem command_resolves_with_body_counterexample:
  "promises (emit_data [14, 0, 0, 0, 42, 0, 0, 0, 0, 0, 0, 0, 0x70, 0x6F, 0x6E, 0x67, 0, 0]
        (snd (command (js ''ping'') 42 connected))) ! fst (command (js ''ping'') 42 connected)
     = Fulfilled (JSPacket \<lparr>p_size = 14, p_id = 42, p_type = 0, p_body = js ''pong''\<rparr>)
   \<and> promises (emit_data [14, 0, 0, 0, 42, 0, 0, 0, 0, 0, 0, 0, 0x70, 0x6F, 0x6E, 0x67, 0, 0]
        (snd (command (js ''ping'') 42 connected))) ! fst (command (js ''ping'') 42 connected)
     \<noteq> Fulfilled (JSString (js ''pong''))"
  by (simp add: eval_defs)

text \<open>
  Claim C8, amended. Every call to \<^verbatim>\<open>send\<close> removes all \<^verbatim>\<open>'data'\<close> and \<^verbatim>\<open>'error'\<close>
  listeners before it attaches its own, so after it the socket holds exactly the
  listeners of that call, and a connected session never holds more than one \<^verbatim>\<open>'data'\<close>
  listener. If a second \<^verbatim>\<open>send\<close> is issued while the promise of the first is pending, the
  next packet to arrive resolves the second call, unless it has type 2 and id -1, and the
  promise of the first call stays pending whatever happens afterwards.
\<close>

theorem second_send_takes_over:
  assumes "send packet1 s = (p1, s1)" and "promises (run evs s1) ! p1 = Pending"
    and "send packet2 (run evs s1) = (p2, s2)"
  shows "data_listeners s1 = [p1] \<and> error_listeners s1 = [p1]
       \<and> data_listeners s2 = [p2] \<and> error_listeners s2 = [p2] \<and> p1 \<noteq> p2
       \<and> (\<forall>evs'. length (data_listeners (run evs' connected)) \<le> 1)
       \<and> (\<forall>data packet.
             rcon_get_packet_structure data = Inr packet \<longrightarrow> \<not> wrong_password packet \<longrightarrow>
               promises (emit_data data s2) ! p2 = Fulfilled (JSPacket packet)
               \<and> promises (emit_data data s2) ! p1 = Pending)
       \<and> (\<forall>evs'. promises (run evs' s2) ! p1 = Pending)"
proof -
  note st1 = send_state [OF assms(1)]
  note st2 = send_state [OF assms(3)]
  have "length (promises s1) \<le> length (promises (run evs s1))" by (rule promises_grow_run)
  with st1(2) st2(1) have lt: "p1 < p2" by simp
  have p1s2: "promises s2 ! p1 = Pending"
    using assms(2,3) lt st2(1) by (auto simp: send_eq nth_append)
  have det: "detached p1 s2"
    using lt st2 by (simp add: detached_def)
  have inv: "length (data_listeners (run evs' connected)) \<le> 1" for evs'
    by (rule one_data_listener_run) (simp add: connected_def)
  have later: "promises (run evs' s2) ! p1 = Pending" for evs'
    using detached_run [OF det, of evs'] p1s2 by simp
  have next_data: "promises (emit_data data s2) ! p2 = Fulfilled (JSPacket packet)
      \<and> promises (emit_data data s2) ! p1 = Pending"
    if "rcon_get_packet_structure data = Inr packet" "\<not> wrong_password packet" for data packet
    using send_then_packet(1) [OF assms(3) that] detached_emit_data [OF det, of data] p1s2
    by simp
  show ?thesis
    using st1(4,5) st2(4,5) lt inv later next_data by simp
qed

theorem second_send_takes_over_witness:
  "send [11, 0, 0, 0, 1, 0, 0, 0, 2, 0, 0, 0, 0x61, 0, 0] connected
     = (1, \<lparr>written = [[11, 0, 0, 0, 1, 0, 0, 0, 2, 0, 0, 0, 0x61, 0, 0]],
            data_listeners = [1], error_listeners = [1],
            promises = [Fulfilled JSSocket, Pending], uncaught = []\<rparr>)
   \<and> promises (run [] \<lparr>written = [[11, 0, 0, 0, 1, 0, 0, 0, 2, 0, 0, 0, 0x61, 0, 0]],
            data_listeners = [1], error_listeners = [1],
            promises = [Fulfilled JSSocket, Pending], uncaught = []\<rparr>) ! 1 = Pending
   \<and> send [11, 0, 0, 0, 2, 0, 0, 0, 2, 0, 0, 0, 0x62, 0, 0]
        (run [] \<lparr>written = [[11, 0, 0, 0, 1, 0, 0, 0, 2, 0, 0, 0, 0x61, 0, 0]],
            data_listeners = [1], error_listeners = [1],
            promises = [Fulfilled JSSocket, Pending], uncaught = []\<rparr>)
     = (2, \<lparr>written = [[11, 0, 0, 0, 1, 0, 0, 0, 2, 0, 0, 0, 0x61, 0, 0],
                       [11, 0, 0, 0, 2, 0, 0, 0, 2, 0, 0, 0, 0x62, 0, 0]],
            data_listeners = [2], error_listeners = [2],
            promises = [Fulfilled JSSocket, Pending, Pending], uncaught = []\<rparr>)
   \<and> rcon_get_packet_structure [12, 0, 0, 0, 1, 0, 0, 0, 0, 0, 0, 0, 0x6F, 0x6B, 0, 0]
       = Inr \<lparr>p_size = 12, p_id = 1, p_type = 0, p_body = js ''ok''\<rparr>
   \<and> \<not> wrong_password \<lparr>p_size = 12, p_id = 1, p_type = 0, p_body = js ''ok''\<rparr>
   \<and> promises (emit_data [12, 0, 0, 0, 1, 0, 0, 0, 0, 0, 0, 0, 0x6F, 0x6B, 0, 0]
        \<lparr>written = [[11, 0, 0, 0, 1, 0, 0, 0, 2, 0, 0, 0, 0x61, 0, 0],
                       [11, 0, 0, 0, 2, 0, 0, 0, 2, 0, 0, 0, 0x62, 0, 0]],
            data_listeners = [2], error_listeners = [2],
            promises = [Fulfilled JSSocket, Pending, Pending], uncaught = []\<rparr>) ! 2
       = Fulfilled (JSPacket \<lparr>p_size = 12, p_id = 1, p_type = 0, p_body = js ''ok''\<rparr>)
   \<and> promises (emit_data [12, 0, 0, 0, 1, 0, 0, 0, 0, 0, 0, 0, 0x6F, 0x6B, 0, 0]
        \<lparr>written = [[11, 0, 0, 0, 1, 0, 0, 0, 2, 0, 0, 0, 0x61, 0, 0],
                       [11, 0, 0, 0, 2, 0, 0, 0, 2, 0, 0, 0, 0x62, 0, 0]],
            data_listeners = [2], error_listeners = [2],
            promises = [Fulfilled JSSocket, Pending, Pending], uncaught = []\<rparr>) ! 1
       = Pending"
proof -
  define s1 where "s1 = \<lparr>written = [[11, 0, 0, 0, 1, 0, 0, 0, 2, 0, 0, 0, 0x61, 0, 0 :: byte]],
            data_listeners = [1], error_listeners = [1],
            promises = [Fulfilled JSSocket, Pending], uncaught = []\<rparr>"
  define s2 where "s2 = \<lparr>written = [[11, 0, 0, 0, 1, 0, 0, 0, 2, 0, 0, 0, 0x61, 0, 0 :: byte],
                       [11, 0, 0, 0, 2, 0, 0, 0, 2, 0, 0, 0, 0x62, 0, 0]],
            data_listeners = [2], error_listeners = [2],
            promises = [Fulfilled JSSocket, Pending, Pending], uncaught = []\<rparr>"
  have h1: "send [11, 0, 0, 0, 1, 0, 0, 0, 2, 0, 0, 0, 0x61, 0, 0] connected = (1, s1)"
    by (simp add: send_def connected_def s1_def Let_def)
  have h2: "promises (run [] s1) ! 1 = Pending"
    by (simp add: run_def s1_def)
  have h3: "send [11, 0, 0, 0, 2, 0, 0, 0, 2, 0, 0, 0, 0x62, 0, 0] (run [] s1) = (2, s2)"
    by (simp add: send_def run_def s1_def s2_def Let_def)
  have h4: "rcon_get_packet_structure [12, 0, 0, 0, 1, 0, 0, 0, 0, 0, 0, 0, 0x6F, 0x6B, 0, 0]
       = Inr \<lparr>p_size = 12, p_id = 1, p_type = 0, p_body = js ''ok''\<rparr>"
    by (simp add: eval_defs)
  have h5: "\<not> wrong_password \<lparr>p_size = 12, p_id = 1, p_type = 0, p_body = js ''ok''\<rparr>"
    by (simp add: wrong_password_def)
  from second_send_takes_over [OF h1 h2 h3] h4 h5
  have "promises (emit_data [12, 0, 0, 0, 1, 0, 0, 0, 0, 0, 0, 0, 0x6F, 0x6B, 0, 0] s2) ! 2
       = Fulfilled (JSPacket \<lparr>p_size = 12, p_id = 1, p_type = 0, p_body = js ''ok''\<rparr>)
     \<and> promises (emit_data [12, 0, 0, 0, 1, 0, 0, 0, 0, 0, 0, 0, 0x6F, 0x6B, 0, 0] s2) ! 1
       = Pending"
    by blast
  with h1 h2 h3 h4 h5 show ?thesis unfolding s1_def s2_def by blast
qed

text \<open>
  Claim C8 as stated fails: after a second \<^verbatim>\<open>send\<close>, the next packet to arrive has type 2
  and id -1, and it does not resolve the second call.
\<close>

theorem second_send_wrong_password_packet_counterexample:
  "rcon_get_packet_structure [10, 0, 0, 0, 0xFF, 0xFF, 0xFF, 0xFF, 2, 0, 0, 0, 0, 0]
     = Inr \<lparr>p_size = 10, p_id = - 1, p_type = 2, p_body = []\<rparr>
   \<and> promises (snd (send [11, 0, 0, 0, 1, 0, 0, 0, 2, 0, 0, 0, 0x61, 0, 0] connected))
        ! fst (send [11, 0, 0, 0, 1, 0, 0, 0, 2, 0, 0, 0, 0x61, 0, 0] connected) = Pending
   \<and> promises (emit_data [10, 0, 0, 0, 0xFF, 0xFF, 0xFF, 0xFF, 2, 0, 0, 0, 0, 0]
        (snd (send [11, 0, 0, 0, 2, 0, 0, 0, 2, 0, 0, 0, 0x62, 0, 0]
          (snd (send [11, 0, 0, 0, 1, 0, 0, 0, 2, 0, 0, 0, 0x61, 0, 0] connected)))))
        ! fst (send [11, 0, 0, 0, 2, 0, 0, 0, 2, 0, 0, 0, 0x62, 0, 0]
          (snd (send [11, 0, 0, 0, 1, 0, 0, 0, 2, 0, 0, 0, 0x61, 0, 0] connected)))
     = Pending"
  by (simp add: eval_defs)

text \<open>
  Claim C9, amended. When a chunk arrives, the handler attached by the last \<^verbatim>\<open>send\<close>, the
  only one attached, is called exactly once for that chunk. The call does not detach it:
  it is attached with \<^verbatim>\<open>on\<close> and stays attached until the next \<^verbatim>\<open>send\<close> removes it, so a
  second chunk calls the same handler again.
\<close>

theorem data_listener_stays_attached:
  assumes "data_listeners s = [p]" and "p < length (promises s)"
  shows "emit_data data s =
           (case data_listener p data s of
              (s', None) \<Rightarrow> s'
            | (s', Some e) \<Rightarrow> s'\<lparr>uncaught := uncaught s' @ [e]\<rparr>)
       \<and> data_listeners (emit_data data s) = [p]
       \<and> emit_data data' (emit_data data s) =
           (case data_listener p data' (emit_data data s) of
              (s', None) \<Rightarrow> s'
            | (s', Some e) \<Rightarrow> s'\<lparr>uncaught := uncaught s' @ [e]\<rparr>)
       \<and> data_listeners (snd (send packet (emit_data data s))) \<noteq> [p]"
proof -
  have still: "data_listeners (emit_data data s) = [p]"
    using assms(1) by (simp add: emit_data_fields)
  have "length (promises (emit_data data s)) \<noteq> p"
    using assms(2) by (simp add: emit_data_fields)
  then have "data_listeners (snd (send packet (emit_data data s))) \<noteq> [p]"
    by (simp add: send_fields)
  with still emit_data_single [OF assms(1), of data] emit_data_single [OF still, of data']
  show ?thesis by simp
qed

theorem data_listener_stays_attached_witness:
  "data_listeners \<lparr>written = [[11, 0, 0, 0, 1, 0, 0, 0, 2, 0, 0, 0, 0x61, 0, 0]],
            data_listeners = [1], error_listeners = [1],
            promises = [Fulfilled JSSocket, Pending], uncaught = []\<rparr> = [1]
   \<and> 1 < length (promises \<lparr>written = [[11, 0, 0, 0, 1, 0, 0, 0, 2, 0, 0, 0, 0x61, 0, 0]],
            data_listeners = [1], error_listeners = [1],
            promises = [Fulfilled JSSocket, Pending], uncaught = []\<rparr>)
   \<and> data_listeners (emit_data [12, 0, 0, 0, 1, 0, 0, 0, 0, 0, 0, 0, 0x6F, 0x6B, 0, 0]
        \<lparr>written = [[11, 0, 0, 0, 1, 0, 0, 0, 2, 0, 0, 0, 0x61, 0, 0]],
            data_listeners = [1], error_listeners = [1],
            promises = [Fulfilled JSSocket, Pending], uncaught = []\<rparr>) = [1]"
proof -
  define s1 where "s1 = \<lparr>written = [[11, 0, 0, 0, 1, 0, 0, 0, 2, 0, 0, 0, 0x61, 0, 0 :: byte]],
            data_listeners = [1], error_listeners = [1],
            promises = [Fulfilled JSSocket, Pending], uncaught = []\<rparr>"
  have h1: "data_listeners s1 = [1]" by (simp add: s1_def)
  have h2: "1 < length (promises s1)" by (simp add: s1_def)
  from data_listener_stays_attached [OF h1 h2] h1 h2
  have "data_listeners s1 = [1] \<and> 1 < length (promises s1)
      \<and> data_listeners (emit_data [12, 0, 0, 0, 1, 0, 0, 0, 0, 0, 0, 0, 0x6F, 0x6B, 0, 0] s1) = [1]"
    by blast
  then show ?thesis unfolding s1_def .
qed

text \<open>
  Claim C9 as stated fails: after the first chunk the handler is still attached, and a
  second chunk calls it again; here the second chunk is a packet of type 2 and id -1, and
  the exception the handler throws for it shows the call.
\<close>

theorem data_listener_called_again_counterexample:
  "data_listeners (emit_data [12, 0, 0, 0, 1, 0, 0, 0, 0, 0, 0, 0, 0x6F, 0x6B, 0, 0]
        (snd (send [11, 0, 0, 0, 1, 0, 0, 0, 2, 0, 0, 0, 0x61, 0, 0] connected)))
     = [fst (send [11, 0, 0, 0, 1, 0, 0, 0, 2, 0, 0, 0, 0x61, 0, 0] connected)]
   \<and> uncaught (emit_data [12, 0, 0, 0, 1, 0, 0, 0, 0, 0, 0, 0, 0x6F, 0x6B, 0, 0]
        (snd (send [11, 0, 0, 0, 1, 0, 0, 0, 2, 0, 0, 0, 0x61, 0, 0] connected))) = []
   \<and> uncaught (emit_data [10, 0, 0, 0, 0xFF, 0xFF, 0xFF, 0xFF, 2, 0, 0, 0, 0, 0]
        (emit_data [12, 0, 0, 0, 1, 0, 0, 0, 0, 0, 0, 0, 0x6F, 0x6B, 0, 0]
          (snd (send [11, 0, 0, 0, 1, 0, 0, 0, 2, 0, 0, 0, 0x61, 0, 0] connected))))
     = [Error ''Wrong RCON password!'']"
  by (simp add: eval_defs)

text \<open>
  Claim C2, on the code. After \<^verbatim>\<open>auth\<close>, the first packet to arrive has type 2 and id -1.
  The listener throws \<^verbatim>\<open>Error('Wrong RCON password!')\<close>; the exception escapes the listener,
  and the promise of \<^verbatim>\<open>auth\<close> is not rejected: it is pending, and stays pending.
\<close>

theorem auth_wrong_password_stays_pending:
  "rcon_get_packet_structure [10, 0, 0, 0, 0xFF, 0xFF, 0xFF, 0xFF, 2, 0, 0, 0, 0, 0]
     = Inr \<lparr>p_size = 10, p_id = - 1, p_type = 2, p_body = []\<rparr>
   \<and> promises (emit_data [10, 0, 0, 0, 0xFF, 0xFF, 0xFF, 0xFF, 2, 0, 0, 0, 0, 0]
        (snd (auth (js ''secret'') connected))) ! fst (auth (js ''secret'') connected) = Pending
   \<and> uncaught (emit_data [10, 0, 0, 0, 0xFF, 0xFF, 0xFF, 0xFF, 2, 0, 0, 0, 0, 0]
        (snd (auth (js ''secret'') connected))) = [Error ''Wrong RCON password!'']
   \<and> promises (run [SocketFailure (SocketError ''ECONNRESET''), Data [10, 0, 0, 0, 10, 0, 0, 0, 2, 0, 0, 0, 0, 0]]
        (emit_data [10, 0, 0, 0, 0xFF, 0xFF, 0xFF, 0xFF, 2, 0, 0, 0, 0, 0]
          (snd (auth (js ''secret'') connected)))) ! fst (auth (js ''secret'') connected) = Pending"
  by (simp add: eval_defs run_def step_def)

end
